theory Spec2Isabelle
  imports Complex_Main "HOL-Library.Log_Nat" "HOL-Library.Multiset" "HOL-Library.Sublist"
begin

section \<open>Data model (processor.go, lines 14-30)\<close>

text \<open>
  Go strings are byte sequences, so a \<open>string\<close> (a list of 8-bit characters) holds one
  exactly. Go's \<open>int\<close> is taken at its 64-bit width. The fields \<open>StatusCode\<close> and
  \<open>ResponseTime\<close> hold whatever \<open>strconv.Atoi\<close> produced, a value between \<open>-2^63\<close> and
  \<open>2^63 - 1\<close>; they are \<open>int\<close> here and the one place where the program adds such values
  (\<open>totalRespTime\<close>) wraps explicitly. The counters \<open>TotalRequests\<close>, \<open>ErrorCount\<close>, the
  per-IP counts and \<open>lineNumber\<close> grow by one per record received, so no run reaches
  \<open>2^63\<close> with them; they are unbounded integers.
\<close>

record LogEntry =
  Timestamp :: string
  IP :: string
  Method :: string
  URL :: string
  StatusCode :: int
  ResponseTime :: int

text \<open>
  \<open>AverageRespTime\<close> is a \<open>float64\<close>. A finite double is a rational number, and the
  field holds that number; the arithmetic that produces it rounds (see \<open>f64_round\<close>).
\<close>

record Statistics =
  TotalRequests :: int
  ErrorCount :: int
  RequestsByIP :: "string \<rightharpoonup> int"
  AverageRespTime :: rat

section \<open>Machine arithmetic\<close>

text \<open>Two's complement wrap-around of a 64-bit signed addition.\<close>

definition wrap64 :: "int \<Rightarrow> int" where
  "wrap64 x = (x + 2 ^ 63) mod 2 ^ 64 - 2 ^ 63"

text \<open>
  IEEE 754 binary64, round to nearest, ties to even, on the normal range
  (\<open>2^-1022 \<le> |x| < 2^1024\<close>): a double has a 53-bit significand, so the doubles with
  \<open>2^e \<le> |x| < 2^(e+1)\<close> are the multiples of \<open>2^(e-52)\<close>. Every value this program
  converts or divides is an integer of magnitude at most \<open>2^63\<close> or a quotient of two
  such integers, which lies in the normal range or is zero.
\<close>

definition round_half_even :: "rat \<Rightarrow> int" where
  "round_half_even q =
     (let f = \<lfloor>q\<rfloor>; r = q - of_int f
      in if r < 1 / 2 then f
         else if 1 / 2 < r then f + 1
         else if even f then f else f + 1)"

text \<open>The binary exponent \<open>e\<close> of a positive rational: \<open>2^e \<le> x < 2^(e+1)\<close>.\<close>

definition binexp :: "rat \<Rightarrow> int" where
  "binexp x =
     (let (a, b) = quotient_of x; e0 = bitlen a - bitlen b
      in if 2 powi e0 \<le> x then e0 else e0 - 1)"

definition f64_round :: "rat \<Rightarrow> rat" where
  "f64_round x =
     (if x = 0 then 0
      else let u = 2 powi (binexp \<bar>x\<bar> - 52)
           in sgn x * of_int (round_half_even (\<bar>x\<bar> / u)) * u)"

text \<open>The conversion \<open>float64(i)\<close> and the division \<open>a / b\<close> of two doubles.\<close>

definition f64_of_int :: "int \<Rightarrow> rat" where
  "f64_of_int i = f64_round (of_int i)"

definition f64_div :: "rat \<Rightarrow> rat \<Rightarrow> rat" where
  "f64_div a b = f64_round (a / b)"

section \<open>The aggregator (processor.go, lines 197-217)\<close>

text \<open>
  A channel that is ranged over until it closes delivers a finite sequence of records;
  the loop of \<open>calculateStats\<close> is a recursion over that sequence, carrying the
  \<open>stats\<close> value and the local \<open>totalRespTime\<close>. Reading a key that a Go map does not
  hold gives 0, which \<open>++\<close> turns into 1.
\<close>

definition newStatistics :: Statistics where
  "newStatistics =
     \<lparr>TotalRequests = 0, ErrorCount = 0, RequestsByIP = Map.empty, AverageRespTime = 0\<rparr>"

definition lookup0 :: "(string \<rightharpoonup> int) \<Rightarrow> string \<Rightarrow> int" where
  "lookup0 m k = (case m k of None \<Rightarrow> 0 | Some c \<Rightarrow> c)"

fun calcLoop :: "LogEntry list \<Rightarrow> Statistics \<Rightarrow> int \<Rightarrow> Statistics \<times> int" where
  "calcLoop [] stats totalRespTime = (stats, totalRespTime)"
| "calcLoop (logEntry # rest) stats totalRespTime =
     calcLoop rest
       (stats\<lparr>TotalRequests := TotalRequests stats + 1,
              ErrorCount := (if 400 \<le> StatusCode logEntry then ErrorCount stats + 1
                             else ErrorCount stats),
              RequestsByIP := (RequestsByIP stats)
                (IP logEntry \<mapsto> lookup0 (RequestsByIP stats) (IP logEntry) + 1)\<rparr>)
       (wrap64 (totalRespTime + ResponseTime logEntry))"

definition calculateStats :: "LogEntry list \<Rightarrow> Statistics" where
  "calculateStats input =
     (let (stats, totalRespTime) = calcLoop input newStatistics 0
      in if 0 < TotalRequests stats
         then stats\<lparr>AverageRespTime :=
                f64_div (f64_of_int totalRespTime) (f64_of_int (TotalRequests stats))\<rparr>
         else stats)"

section \<open>The line parser (processor.go, lines 33-60)\<close>

text \<open>
  \<open>strings.Split(line, ",")\<close> cuts at every comma and returns the pieces between
  them, empty pieces included: one more piece than there are commas, never none.
\<close>

fun split_comma :: "string \<Rightarrow> string list" where
  "split_comma [] = [[]]"
| "split_comma (c # cs) =
     (if c = CHR '','' then [] # split_comma cs
      else (case split_comma cs of
              [] \<Rightarrow> [[c]]
            | f # fs \<Rightarrow> (c # f) # fs))"

text \<open>
  \<open>strconv.Atoi(s)\<close> is \<open>ParseInt(s, 10, 0)\<close> converted to \<open>int\<close> (for strings shorter
  than 19 bytes a fast path computes the same result). \<open>ParseInt\<close> fails on the empty
  string, strips one leading sign, hands the rest to \<open>ParseUint\<close> and checks the range
  of the result; \<open>ParseUint\<close> in base 10 fails on the empty string and on every byte
  that is not a decimal digit, and reports a range error once the value leaves
  \<open>uint64\<close>. Nothing is trimmed and no underscore is accepted in base 10. The
  unsigned value is an \<open>int\<close> that the checks keep between 0 and \<open>maxUint64\<close>.
\<close>

datatype num_error = ErrSyntax | ErrRange

definition is_digit :: "char \<Rightarrow> bool" where
  "is_digit c = (48 \<le> (of_char c :: int) \<and> (of_char c :: int) \<le> 57)"

definition digit_val :: "char \<Rightarrow> int" where
  "digit_val c = of_char c - 48"

definition maxUint64 :: int where
  "maxUint64 = 2 ^ 64 - 1"

fun parseUintLoop :: "string \<Rightarrow> int \<Rightarrow> num_error + int" where
  "parseUintLoop [] n = Inr n"
| "parseUintLoop (c # cs) n =
     (if \<not> is_digit c then Inl ErrSyntax
      else if maxUint64 div 10 + 1 \<le> n then Inl ErrRange
      else if maxUint64 < n * 10 + digit_val c then Inl ErrRange
      else parseUintLoop cs (n * 10 + digit_val c))"

definition parseUint :: "string \<Rightarrow> num_error + int" where
  "parseUint s = (if s = [] then Inl ErrSyntax else parseUintLoop s 0)"

definition parseInt :: "string \<Rightarrow> num_error + int" where
  "parseInt s =
     (case s of
        [] \<Rightarrow> Inl ErrSyntax
      | c # cs \<Rightarrow>
          (let neg = (c = CHR ''-'');
               digits = (if c = CHR ''+'' \<or> c = CHR ''-'' then cs else s)
           in case parseUint digits of
                Inl ErrSyntax \<Rightarrow> Inl ErrSyntax
              | r \<Rightarrow>
                  (let un = (case r of Inr n \<Rightarrow> n | Inl _ \<Rightarrow> maxUint64)
                   in if \<not> neg \<and> 2 ^ 63 \<le> un then Inl ErrRange
                      else if neg \<and> 2 ^ 63 < un then Inl ErrRange
                      else Inr (if neg then - un else un))))"

definition atoi :: "string \<Rightarrow> num_error + int" where
  "atoi s = parseInt s"

text \<open>
  The three errors of \<open>parseLogLine\<close>, each carrying the line number it prints
  (\<open>lineNumber + 1\<close>); the last two wrap the error of \<open>Atoi\<close>.
\<close>

datatype parse_error =
    BadFormat int
  | BadStatusCode int num_error
  | BadResponseTime int num_error

definition parseLogLine :: "string \<Rightarrow> int \<Rightarrow> parse_error + LogEntry" where
  "parseLogLine line lineNumber =
     (let fields = split_comma line
      in if length fields \<noteq> 6 then Inl (BadFormat (lineNumber + 1))
         else case atoi (fields ! 4) of
                Inl err \<Rightarrow> Inl (BadStatusCode (lineNumber + 1) err)
              | Inr statusCode \<Rightarrow>
                  (case atoi (fields ! 5) of
                     Inl err \<Rightarrow> Inl (BadResponseTime (lineNumber + 1) err)
                   | Inr responseTime \<Rightarrow>
                       Inr \<lparr>Timestamp = fields ! 0, IP = fields ! 1, Method = fields ! 2,
                            URL = fields ! 3, StatusCode = statusCode,
                            ResponseTime = responseTime\<rparr>))"

text \<open>
  \<open>strings.Join(fields, ",")\<close>, the inverse of the split: it is used to state what the
  split does, and to build a line from the fields of a CSV row.
\<close>

fun join_comma :: "string list \<Rightarrow> string" where
  "join_comma [] = []"
| "join_comma [f] = f"
| "join_comma (f # g # fs) = f @ CHR '','' # join_comma (g # fs)"

section \<open>Channels\<close>

text \<open>
  What a consumer can see of a channel written by one goroutine: the values sent on it
  so far, in order, and whether it has been closed.
\<close>

record chan =
  sent :: "LogEntry list"
  closed :: bool

definition makeChan :: chan where
  "makeChan = \<lparr>sent = [], closed = False\<rparr>"

section \<open>The source reader (processor.go, lines 65-131)\<close>

text \<open>
  The operating system is a parameter. Opening a path fails or gives a file; of a file
  the program uses the result of \<open>Stat\<close> (an error, with a nil \<open>FileInfo\<close>, or a
  \<open>FileInfo\<close> of which only \<open>Name()\<close> is read) and what \<open>Read\<close> delivers: the bytes
  of the file up to its end, or, when \<open>file_read_err\<close> is \<open>Some (n, err)\<close>, its first
  \<open>n\<close> bytes and then the error \<open>err\<close>.
\<close>

datatype os_error = OsError string

record logfile =
  file_stat :: "os_error + string"
  file_bytes :: string
  file_read_err :: "(nat \<times> os_error) option"

type_synonym filesystem = "string \<Rightarrow> os_error + logfile"

definition delivered :: "logfile \<Rightarrow> string" where
  "delivered f =
     (case file_read_err f of
        None \<Rightarrow> file_bytes f
      | Some (n, err) \<Rightarrow> take n (file_bytes f))"

text \<open>
  \<open>bufio.NewScanner(file)\<close> splits with \<open>ScanLines\<close> and keeps the default limit
  \<open>MaxScanTokenSize\<close> of 64 KiB. A line ends at a newline or at the end of the input
  (end of file and a read error end it alike); a last line without a newline counts when
  it is not empty; one trailing carriage return is dropped from each line. The scanner
  looks for the newline in a buffer that grows to the limit and no further: once
  \<open>maxScanTokenSize\<close> bytes of a line are in it and none is a newline, \<open>Scan\<close> gives false
  with \<open>ErrTooLong\<close> and nothing after is read. \<open>scanLoop\<close> runs over the bytes with
  the bytes of the line in progress; it returns the lines and whether it stopped at a
  line too long. \<open>scanFile\<close> returns the lines together with what \<open>scanner.Err()\<close>
  reports once \<open>Scan\<close> has given false.
\<close>

definition newline :: char where
  "newline = CHR 0x0A"

definition dropCR :: "string \<Rightarrow> string" where
  "dropCR data = (if data \<noteq> [] \<and> last data = CHR 0x0D then butlast data else data)"

definition maxScanTokenSize :: nat where
  "maxScanTokenSize = 64 * 1024"

fun scanLoop :: "string \<Rightarrow> string \<Rightarrow> string list \<times> bool" where
  "scanLoop [] line = ((if line = [] then [] else [dropCR line]), False)"
| "scanLoop (c # cs) line =
     (if c = newline then (dropCR line # fst (scanLoop cs []), snd (scanLoop cs []))
      else if maxScanTokenSize \<le> length line + 1 then ([], True)
      else scanLoop cs (line @ [c]))"

datatype scan_error = ErrTooLong | ReadError os_error

definition scanFile :: "logfile \<Rightarrow> string list \<times> scan_error option" where
  "scanFile f =
     (fst (scanLoop (delivered f) []),
      if snd (scanLoop (delivered f) []) then Some ErrTooLong
      else map_option (\<lambda>(n, err). ReadError err) (file_read_err f))"

text \<open>
  The bytes of a file whose lines are the given ones, each ended by a newline: used to
  state what the scanner does with a file and to build files.
\<close>

definition join_lines :: "string list \<Rightarrow> string" where
  "join_lines ls = concat (map (\<lambda>l. l @ [newline]) ls)"

text \<open>What the program writes to standard output, and what it writes through \<open>log\<close>.\<close>

datatype notice =
    Usage
  | StatFailed os_error
  | FileName string
  | CtxCancelled
  | Report int int rat

datatype diagnostic =
    HeaderUnreadable
  | ScannerFatal scan_error
  | MalformedLine int parse_error
  | ReadLogsFatal os_error

text \<open>
  The part of \<open>readLogs\<close> that runs before it returns. When \<open>Stat\<close> fails the
  function prints the error and goes on to \<open>info.Name()\<close> with a nil \<open>info\<close>, which
  is a runtime panic.
\<close>

datatype readLogs_result =
    ReturnedError os_error
  | NilPanic "notice list"
  | ReturnedChan logfile "notice list"

definition readLogs :: "filesystem \<Rightarrow> string \<Rightarrow> readLogs_result" where
  "readLogs fs filename =
     (case fs filename of
        Inl err \<Rightarrow> ReturnedError err
      | Inr f \<Rightarrow>
          (case file_stat f of
             Inl err \<Rightarrow> NilPanic [StatFailed err]
           | Inr name \<Rightarrow> ReturnedChan f [FileName name]))"

text \<open>
  The goroutine of \<open>readLogs\<close>. The context is \<open>None\<close> when it is never cancelled and
  \<open>Some k\<close> when the first \<open>k\<close> checks of the loop find it live and the next one finds
  it done. \<open>r_fatal\<close> records that \<open>log.Fatalf\<close> ended the process, in which case the
  deferred \<open>close(out)\<close> does not run. \<open>scanner.Err()\<close> is read only when the header
  cannot be scanned; when \<open>Scan\<close> gives false later, for whatever reason, the loop ends.
\<close>

record reader =
  r_lineNumber :: int
  r_out :: chan
  r_logged :: "diagnostic list"
  r_printed :: "notice list"
  r_fatal :: bool

definition newReader :: reader where
  "newReader = \<lparr>r_lineNumber = 0, r_out = makeChan, r_logged = [], r_printed = [],
                 r_fatal = False\<rparr>"

fun readLoop :: "nat option \<Rightarrow> string list \<Rightarrow> reader \<Rightarrow> reader" where
  "readLoop ctx [] r = r"
| "readLoop ctx (line # rest) r =
     (let lineNumber = r_lineNumber r + 1
      in if ctx = Some 0
         then r\<lparr>r_lineNumber := lineNumber, r_printed := r_printed r @ [CtxCancelled]\<rparr>
         else (case parseLogLine line lineNumber of
                 Inl err \<Rightarrow>
                   readLoop (map_option (\<lambda>k. k - 1) ctx) rest
                     (r\<lparr>r_lineNumber := lineNumber,
                        r_logged := r_logged r @ [MalformedLine (lineNumber + 1) err]\<rparr>)
               | Inr logEntry \<Rightarrow>
                   readLoop (map_option (\<lambda>k. k - 1) ctx) rest
                     (r\<lparr>r_lineNumber := lineNumber,
                        r_out := (r_out r)\<lparr>sent := sent (r_out r) @ [logEntry]\<rparr>\<rparr>)))"

definition closeOut :: "reader \<Rightarrow> reader" where
  "closeOut r = r\<lparr>r_out := (r_out r)\<lparr>closed := True\<rparr>\<rparr>"

definition readGoroutine :: "nat option \<Rightarrow> logfile \<Rightarrow> reader" where
  "readGoroutine ctx f =
     (case scanFile f of
        ([], Some err) \<Rightarrow>
          newReader\<lparr>r_logged := [HeaderUnreadable, ScannerFatal err], r_fatal := True\<rparr>
      | ([], None) \<Rightarrow> closeOut (newReader\<lparr>r_logged := [HeaderUnreadable]\<rparr>)
      | (header # rest, err) \<Rightarrow> closeOut (readLoop ctx rest newReader))"

section \<open>The filter (processor.go, lines 181-194)\<close>

text \<open>
  \<open>filterLoop\<close> is the state of \<open>out\<close> after the loop has received the given records
  and the input is still open; \<open>filterLogs\<close> is its state once the input has delivered
  all of \<open>input\<close> and closed, which ends the loop and runs the deferred \<open>close(out)\<close>.
\<close>

fun filterLoop :: "LogEntry list \<Rightarrow> int \<Rightarrow> chan \<Rightarrow> chan" where
  "filterLoop [] minStatus out = out"
| "filterLoop (logEntry # rest) minStatus out =
     (if minStatus \<le> StatusCode logEntry
      then filterLoop rest minStatus (out\<lparr>sent := sent out @ [logEntry]\<rparr>)
      else filterLoop rest minStatus out)"

definition filterLogs :: "LogEntry list \<Rightarrow> int \<Rightarrow> chan" where
  "filterLogs input minStatus = (filterLoop input minStatus makeChan)\<lparr>closed := True\<rparr>"

section \<open>The splitter (processor.go, lines 166-178)\<close>

text \<open>
  The forwarding goroutine of \<open>tee\<close> and the two consumers of its outputs run
  concurrently, so \<open>tee\<close> is a transition system. A state holds the records \<open>in\<close> has
  yet to deliver before it closes, the place the goroutine has reached, the contents of
  the two buffers, whether each output is closed, and what each consumer has received so
  far. \<open>make(chan LogEntry, bufferSize)\<close> panics on a negative size, and then there is no
  state to start from.
\<close>

datatype tee_pc =
    TeeRecv
  | TeeSend1 LogEntry
  | TeeSend2 LogEntry
  | TeeClose2
  | TeeClose1
  | TeeDone

record tee_state =
  t_in :: "LogEntry list"
  t_pc :: tee_pc
  t_buf1 :: "LogEntry list"
  t_buf2 :: "LogEntry list"
  t_closed1 :: bool
  t_closed2 :: bool
  t_got1 :: "LogEntry list"
  t_got2 :: "LogEntry list"

definition tee :: "LogEntry list \<Rightarrow> int \<Rightarrow> tee_state option" where
  "tee input bufferSize =
     (if bufferSize < 0 then None
      else Some \<lparr>t_in = input, t_pc = TeeRecv, t_buf1 = [], t_buf2 = [],
                 t_closed1 = False, t_closed2 = False, t_got1 = [], t_got2 = []\<rparr>)"

text \<open>
  A send completes when the buffer has room, or when the buffer is empty and the value
  goes straight to the waiting consumer (the only way on a channel of capacity 0);
  otherwise the goroutine stays where it is. When \<open>in\<close> is exhausted and closed the loop
  ends and the deferred calls run, last deferred first: \<open>close(out2)\<close>, then
  \<open>close(out1)\<close>. A consumer takes the oldest buffered value.
\<close>

inductive tee_step :: "int \<Rightarrow> tee_state \<Rightarrow> tee_state \<Rightarrow> bool" for bufferSize :: int where
  recv: "t_pc s = TeeRecv \<Longrightarrow> t_in s = v # rest \<Longrightarrow>
         tee_step bufferSize s (s\<lparr>t_in := rest, t_pc := TeeSend1 v\<rparr>)"
| send1: "t_pc s = TeeSend1 v \<Longrightarrow> int (length (t_buf1 s)) < bufferSize \<Longrightarrow>
         tee_step bufferSize s (s\<lparr>t_buf1 := t_buf1 s @ [v], t_pc := TeeSend2 v\<rparr>)"
| hand1: "t_pc s = TeeSend1 v \<Longrightarrow> t_buf1 s = [] \<Longrightarrow>
         tee_step bufferSize s (s\<lparr>t_got1 := t_got1 s @ [v], t_pc := TeeSend2 v\<rparr>)"
| send2: "t_pc s = TeeSend2 v \<Longrightarrow> int (length (t_buf2 s)) < bufferSize \<Longrightarrow>
         tee_step bufferSize s (s\<lparr>t_buf2 := t_buf2 s @ [v], t_pc := TeeRecv\<rparr>)"
| hand2: "t_pc s = TeeSend2 v \<Longrightarrow> t_buf2 s = [] \<Longrightarrow>
         tee_step bufferSize s (s\<lparr>t_got2 := t_got2 s @ [v], t_pc := TeeRecv\<rparr>)"
| eof: "t_pc s = TeeRecv \<Longrightarrow> t_in s = [] \<Longrightarrow>
         tee_step bufferSize s (s\<lparr>t_pc := TeeClose2\<rparr>)"
| close2: "t_pc s = TeeClose2 \<Longrightarrow>
         tee_step bufferSize s (s\<lparr>t_closed2 := True, t_pc := TeeClose1\<rparr>)"
| close1: "t_pc s = TeeClose1 \<Longrightarrow>
         tee_step bufferSize s (s\<lparr>t_closed1 := True, t_pc := TeeDone\<rparr>)"
| take1: "t_buf1 s = v # rest \<Longrightarrow>
         tee_step bufferSize s (s\<lparr>t_buf1 := rest, t_got1 := t_got1 s @ [v]\<rparr>)"
| take2: "t_buf2 s = v # rest \<Longrightarrow>
         tee_step bufferSize s (s\<lparr>t_buf2 := rest, t_got2 := t_got2 s @ [v]\<rparr>)"

text \<open>Both outputs are closed and both consumers have emptied their buffers.\<close>

definition tee_finished :: "tee_state \<Rightarrow> bool" where
  "tee_finished s = (t_closed1 s \<and> t_closed2 s \<and> t_buf1 s = [] \<and> t_buf2 s = [])"

section \<open>The worker pool (processor.go, lines 135-163)\<close>

text \<open>
  A worker is about to receive from \<open>input\<close>, or holds a record before the
  \<open>select\<close>, or holds it in the send on \<open>out\<close>, or has returned. The state of the
  pool holds the records \<open>input\<close> has yet to deliver before it closes, whether the
  context is done, the workers, the records delivered on \<open>out\<close> in the order of their
  delivery, and whether \<open>out\<close> is closed. \<open>p_dropped\<close> only observes: it lists the
  records that workers held when they returned on cancellation. \<open>wg.Add\<close> panics on a
  negative count.
\<close>

datatype worker_pc =
    WRecv
  | WSelect LogEntry
  | WSend LogEntry
  | WDone

record pool_state =
  p_in :: "LogEntry list"
  p_cancelled :: bool
  p_workers :: "worker_pc list"
  p_out :: "LogEntry list"
  p_closed :: bool
  p_dropped :: "LogEntry list"

definition processLogs :: "LogEntry list \<Rightarrow> int \<Rightarrow> pool_state option" where
  "processLogs input numWorkers =
     (if numWorkers < 0 then None
      else Some \<lparr>p_in = input, p_cancelled = False,
                 p_workers = replicate (nat numWorkers) WRecv, p_out = [],
                 p_closed = False, p_dropped = []\<rparr>)"

text \<open>
  The context may be cancelled at any moment. A worker takes the next record or finds
  \<open>input\<close> closed and returns; at the \<open>select\<close> it returns if the context is done and
  goes to the send otherwise; the send delivers the record and brings it back to the
  head of the loop. The goroutine behind \<open>wg.Wait()\<close> closes \<open>out\<close> once every worker
  has returned.
\<close>

inductive pool_step :: "pool_state \<Rightarrow> pool_state \<Rightarrow> bool" where
  cancel: "\<not> p_cancelled s \<Longrightarrow> pool_step s (s\<lparr>p_cancelled := True\<rparr>)"
| take: "i < length (p_workers s) \<Longrightarrow> p_workers s ! i = WRecv \<Longrightarrow> p_in s = v # rest \<Longrightarrow>
         pool_step s (s\<lparr>p_in := rest, p_workers := (p_workers s)[i := WSelect v]\<rparr>)"
| input_closed: "i < length (p_workers s) \<Longrightarrow> p_workers s ! i = WRecv \<Longrightarrow> p_in s = [] \<Longrightarrow>
         pool_step s (s\<lparr>p_workers := (p_workers s)[i := WDone]\<rparr>)"
| observe: "i < length (p_workers s) \<Longrightarrow> p_workers s ! i = WSelect v \<Longrightarrow> p_cancelled s \<Longrightarrow>
         pool_step s (s\<lparr>p_workers := (p_workers s)[i := WDone],
                        p_dropped := p_dropped s @ [v]\<rparr>)"
| proceed: "i < length (p_workers s) \<Longrightarrow> p_workers s ! i = WSelect v \<Longrightarrow>
         \<not> p_cancelled s \<Longrightarrow>
         pool_step s (s\<lparr>p_workers := (p_workers s)[i := WSend v]\<rparr>)"
| deliver: "i < length (p_workers s) \<Longrightarrow> p_workers s ! i = WSend v \<Longrightarrow>
         pool_step s (s\<lparr>p_workers := (p_workers s)[i := WRecv], p_out := p_out s @ [v]\<rparr>)"
| close_out: "list_all (\<lambda>w. w = WDone) (p_workers s) \<Longrightarrow> \<not> p_closed s \<Longrightarrow>
         pool_step s (s\<lparr>p_closed := True\<rparr>)"

text \<open>The records that workers hold at the moment.\<close>

fun held :: "worker_pc \<Rightarrow> LogEntry list" where
  "held (WSelect v) = [v]"
| "held (WSend v) = [v]"
| "held w = []"

section \<open>The program (main.go)\<close>

text \<open>
  A run of \<open>main\<close> ends with an exit status (0 on return, 1 after \<open>log.Fatalf\<close>, 2 after
  a runtime panic), what was printed and logged, the records the reader sent on its
  channel, and the two statistics when they were computed. \<open>main\<close> cancels the context
  only on its way out, so the reader and the pool run with a live context. The stages
  are connected by channels only, each consuming what the one before delivers, so a run
  of the pipeline is a run of the pool on the reader's records followed by a run of
  \<open>tee\<close> on what the pool delivered; \<open>printTopIPs\<close> is left out.
\<close>

record outcome =
  exit_status :: int
  printed :: "notice list"
  logged :: "diagnostic list"
  records :: "LogEntry list"
  results :: "(Statistics \<times> Statistics) option"

inductive main_run :: "filesystem \<Rightarrow> string list \<Rightarrow> outcome \<Rightarrow> bool" where
  usage: "length args < 2 \<Longrightarrow>
     main_run fs args \<lparr>exit_status = 0, printed = [Usage], logged = [], records = [],
                       results = None\<rparr>"
| open_failed: "2 \<le> length args \<Longrightarrow> readLogs fs (args ! 1) = ReturnedError err \<Longrightarrow>
     main_run fs args \<lparr>exit_status = 1, printed = [], logged = [ReadLogsFatal err],
                       records = [], results = None\<rparr>"
| stat_failed: "2 \<le> length args \<Longrightarrow> readLogs fs (args ! 1) = NilPanic ns \<Longrightarrow>
     main_run fs args \<lparr>exit_status = 2, printed = ns, logged = [], records = [],
                       results = None\<rparr>"
| scan_failed: "2 \<le> length args \<Longrightarrow> readLogs fs (args ! 1) = ReturnedChan f ns \<Longrightarrow>
     r = readGoroutine None f \<Longrightarrow> r_fatal r \<Longrightarrow>
     main_run fs args \<lparr>exit_status = 1, printed = ns @ r_printed r, logged = r_logged r,
                       records = sent (r_out r), results = None\<rparr>"
| completed: "2 \<le> length args \<Longrightarrow> readLogs fs (args ! 1) = ReturnedChan f ns \<Longrightarrow>
     r = readGoroutine None f \<Longrightarrow> \<not> r_fatal r \<Longrightarrow>
     processLogs (sent (r_out r)) 3 = Some p0 \<Longrightarrow> pool_step\<^sup>*\<^sup>* p0 p \<Longrightarrow>
     p_closed p \<Longrightarrow> \<not> p_cancelled p \<Longrightarrow>
     tee (p_out p) 100 = Some t0 \<Longrightarrow> (tee_step 100)\<^sup>*\<^sup>* t0 t \<Longrightarrow> tee_finished t \<Longrightarrow>
     stats = calculateStats (t_got1 t) \<Longrightarrow>
     filteredStats = calculateStats (sent (filterLogs (t_got2 t) 400)) \<Longrightarrow>
     main_run fs args
       \<lparr>exit_status = 0,
        printed = ns @ r_printed r @
          [Report (TotalRequests stats) (ErrorCount filteredStats) (AverageRespTime stats)],
        logged = r_logged r, records = sent (r_out r),
        results = Some (stats, filteredStats)\<rparr>"

section \<open>Invariants of the concurrent stages\<close>

text \<open>
  What holds of \<open>tee\<close> in every state of a run on \<open>input\<close>: the records sent on each
  output so far (received by the consumer or still buffered), followed by the record in
  hand and the records not yet read, are the input; the second output is at most the
  record in hand behind the first; an output is closed only when the goroutine has
  passed the corresponding \<open>close\<close>; no buffer exceeds the capacity.
\<close>

definition tee_inv :: "LogEntry list \<Rightarrow> int \<Rightarrow> tee_state \<Rightarrow> bool" where
  "tee_inv input bufferSize s =
     (int (length (t_buf1 s)) \<le> bufferSize \<and> int (length (t_buf2 s)) \<le> bufferSize \<and>
      (case t_pc s of
         TeeRecv \<Rightarrow>
           t_got1 s @ t_buf1 s @ t_in s = input \<and>
           t_got2 s @ t_buf2 s = t_got1 s @ t_buf1 s \<and>
           \<not> t_closed1 s \<and> \<not> t_closed2 s
       | TeeSend1 v \<Rightarrow>
           t_got1 s @ t_buf1 s @ v # t_in s = input \<and>
           t_got2 s @ t_buf2 s = t_got1 s @ t_buf1 s \<and>
           \<not> t_closed1 s \<and> \<not> t_closed2 s
       | TeeSend2 v \<Rightarrow>
           t_got1 s @ t_buf1 s @ t_in s = input \<and>
           t_got2 s @ t_buf2 s @ [v] = t_got1 s @ t_buf1 s \<and>
           \<not> t_closed1 s \<and> \<not> t_closed2 s
       | TeeClose2 \<Rightarrow>
           t_in s = [] \<and> t_got1 s @ t_buf1 s = input \<and> t_got2 s @ t_buf2 s = input \<and>
           \<not> t_closed1 s \<and> \<not> t_closed2 s
       | TeeClose1 \<Rightarrow>
           t_in s = [] \<and> t_got1 s @ t_buf1 s = input \<and> t_got2 s @ t_buf2 s = input \<and>
           \<not> t_closed1 s \<and> t_closed2 s
       | TeeDone \<Rightarrow>
           t_in s = [] \<and> t_got1 s @ t_buf1 s = input \<and> t_got2 s @ t_buf2 s = input \<and>
           t_closed1 s \<and> t_closed2 s))"

text \<open>A bound on the number of steps \<open>tee\<close> can still take.\<close>

fun tee_pc_weight :: "tee_pc \<Rightarrow> nat" where
  "tee_pc_weight TeeRecv = 3"
| "tee_pc_weight (TeeSend1 v) = 7"
| "tee_pc_weight (TeeSend2 v) = 5"
| "tee_pc_weight TeeClose2 = 2"
| "tee_pc_weight TeeClose1 = 1"
| "tee_pc_weight TeeDone = 0"

definition tee_measure :: "tee_state \<Rightarrow> nat" where
  "tee_measure s =
     5 * length (t_in s) + tee_pc_weight (t_pc s) + length (t_buf1 s) + length (t_buf2 s)"

text \<open>
  What holds of the pool in every state of a run on \<open>input\<close> with \<open>numWorkers\<close> workers.
  Every record of the input is in exactly one place: delivered on \<open>out\<close>, held by a
  worker, dropped by a worker that returned on cancellation, or not yet taken from
  \<open>input\<close>. Without cancellation nothing is dropped, and a worker has returned only if
  \<open>input\<close> is exhausted. \<open>out\<close> is closed only when every worker has returned, and
  each worker that returned dropped at most one record.
\<close>

definition holding :: "worker_pc list \<Rightarrow> LogEntry multiset" where
  "holding ws = mset (concat (map held ws))"

definition returned :: "worker_pc list \<Rightarrow> nat" where
  "returned ws = length (filter (\<lambda>w. w = WDone) ws)"

definition pool_inv :: "LogEntry list \<Rightarrow> int \<Rightarrow> pool_state \<Rightarrow> bool" where
  "pool_inv input numWorkers s =
     (int (length (p_workers s)) = numWorkers \<and>
      mset (p_out s) + holding (p_workers s) + mset (p_dropped s) + mset (p_in s) = mset input \<and>
      (\<not> p_cancelled s \<longrightarrow> p_dropped s = [] \<and> (WDone \<in> set (p_workers s) \<longrightarrow> p_in s = [])) \<and>
      (p_closed s \<longrightarrow> list_all (\<lambda>w. w = WDone) (p_workers s)) \<and>
      length (p_dropped s) \<le> returned (p_workers s))"

text \<open>A bound on the number of steps the pool can still take.\<close>

fun worker_weight :: "worker_pc \<Rightarrow> nat" where
  "worker_weight WDone = 0"
| "worker_weight WRecv = 1"
| "worker_weight (WSend v) = 2"
| "worker_weight (WSelect v) = 3"

definition pool_measure :: "pool_state \<Rightarrow> nat" where
  "pool_measure s =
     (if p_cancelled s then 0 else 1) + (if p_closed s then 0 else 1) +
     4 * length (p_in s) + sum_list (map worker_weight (p_workers s))"

section \<open>Properties of the aggregator\<close>

lemma calcLoop_total:
  "TotalRequests (fst (calcLoop xs st t)) = TotalRequests st + int (length xs)"
  by (induction xs arbitrary: st t) simp_all

lemma calcLoop_errors:
  "ErrorCount (fst (calcLoop xs st t)) =
     ErrorCount st + int (length (filter (\<lambda>e. 400 \<le> StatusCode e) xs))"
  by (induction xs arbitrary: st t) simp_all

lemma calcLoop_average:
  "AverageRespTime (fst (calcLoop xs st t)) = AverageRespTime st"
  by (induction xs arbitrary: st t) simp_all

lemma calcLoop_byIP:
  "RequestsByIP (fst (calcLoop xs st t)) ip =
     (if ip \<in> IP ` set xs \<or> RequestsByIP st ip \<noteq> None
      then Some (lookup0 (RequestsByIP st) ip + int (count_list (map IP xs) ip))
      else None)"
proof (induction xs arbitrary: st t)
  case Nil
  show ?case by (auto simp: lookup0_def)
next
  case (Cons e es)
  show ?case by (auto simp: Cons.IH lookup0_def)
qed

lemma calculateStats_fields:
  "TotalRequests (calculateStats xs) = TotalRequests (fst (calcLoop xs newStatistics 0))"
  "ErrorCount (calculateStats xs) = ErrorCount (fst (calcLoop xs newStatistics 0))"
  "RequestsByIP (calculateStats xs) = RequestsByIP (fst (calcLoop xs newStatistics 0))"
  by (simp_all add: calculateStats_def split: prod.splits)

lemma calculateStats_byIP:
  "RequestsByIP (calculateStats xs) ip =
     (if ip \<in> IP ` set xs then Some (int (count_list (map IP xs) ip)) else None)"
  by (simp add: calculateStats_fields calcLoop_byIP newStatistics_def lookup0_def)

lemma dom_calculateStats: "dom (RequestsByIP (calculateStats xs)) = IP ` set xs"
  by (auto simp: dom_def calculateStats_byIP)

lemma calculateStats_total: "TotalRequests (calculateStats xs) = int (length xs)"
  by (simp add: calculateStats_fields calcLoop_total newStatistics_def)

lemma calculateStats_errors:
  "ErrorCount (calculateStats xs) = int (length (filter (\<lambda>e. 400 \<le> StatusCode e) xs))"
  by (simp add: calculateStats_fields calcLoop_errors newStatistics_def)

text \<open>
  Claim C1. For every finite sequence of records, \<open>calculateStats\<close> returns statistics
  whose \<open>TotalRequests\<close> is the number of records, whose \<open>ErrorCount\<close> is the number of
  records with a status code of 400 or more, and whose \<open>RequestsByIP\<close> holds for each IP
  that occurs its number of occurrences and nothing for any other; so the values of
  \<open>RequestsByIP\<close> add up to \<open>TotalRequests\<close>.
\<close>

theorem calculateStats_counts:
  "TotalRequests (calculateStats xs) = int (length xs) \<and>
   ErrorCount (calculateStats xs) = int (length (filter (\<lambda>e. 400 \<le> StatusCode e) xs)) \<and>
   (\<forall>ip. RequestsByIP (calculateStats xs) ip =
      (if ip \<in> IP ` set xs then Some (int (count_list (map IP xs) ip)) else None)) \<and>
   (\<Sum>ip \<in> dom (RequestsByIP (calculateStats xs)). the (RequestsByIP (calculateStats xs) ip)) =
      TotalRequests (calculateStats xs)"
proof -
  have "(\<Sum>ip \<in> dom (RequestsByIP (calculateStats xs)). the (RequestsByIP (calculateStats xs) ip))
      = (\<Sum>ip \<in> IP ` set xs. int (count_list (map IP xs) ip))"
    by (simp add: dom_calculateStats calculateStats_byIP)
  also have "\<dots> = int (\<Sum>ip \<in> set (map IP xs). count_list (map IP xs) ip)"
    by simp
  also have "\<dots> = int (length (map IP xs))"
    by (simp only: sum_count_set [OF subset_refl finite_set])
  finally show ?thesis
    using calculateStats_total calculateStats_errors calculateStats_byIP by simp
qed

section \<open>The average response time\<close>

lemma wrap64_add: "wrap64 (wrap64 a + b) = wrap64 (a + b)"
proof -
  have "(wrap64 a + b + 2 ^ 63) mod 2 ^ 64 = ((a + 2 ^ 63) mod 2 ^ 64 + b) mod 2 ^ 64"
    by (simp add: wrap64_def algebra_simps)
  also have "\<dots> = (a + 2 ^ 63 + b) mod 2 ^ 64"
    by (rule mod_add_left_eq)
  finally show ?thesis by (simp add: wrap64_def algebra_simps)
qed

lemma wrap64_id: "- (2 ^ 63) \<le> x \<Longrightarrow> x < 2 ^ 63 \<Longrightarrow> wrap64 x = x"
  by (simp add: wrap64_def)

lemma calcLoop_totalRespTime:
  "wrap64 t = t \<Longrightarrow> snd (calcLoop xs st t) = wrap64 (t + sum_list (map ResponseTime xs))"
proof (induction xs arbitrary: st t)
  case Nil
  then show ?case by simp
next
  case (Cons e es)
  have "wrap64 (wrap64 (t + ResponseTime e)) = wrap64 (t + ResponseTime e)"
    using wrap64_add [of "t + ResponseTime e" 0] by simp
  from Cons.IH [OF this] show ?case
    by (simp add: wrap64_add add.assoc)
qed

lemma calculateStats_average_eq:
  "AverageRespTime (calculateStats xs) =
     (if xs = [] then 0
      else f64_div (f64_of_int (wrap64 (sum_list (map ResponseTime xs))))
             (f64_of_int (int (length xs))))"
proof -
  obtain st t where c: "calcLoop xs newStatistics 0 = (st, t)" by (cases "calcLoop xs newStatistics 0")
  have t: "t = wrap64 (sum_list (map ResponseTime xs))"
    using calcLoop_totalRespTime [of 0 xs newStatistics] c by (simp add: wrap64_def)
  have n: "TotalRequests st = int (length xs)"
    using calcLoop_total [of xs newStatistics 0] c by (simp add: newStatistics_def)
  have a: "AverageRespTime st = 0"
    using calcLoop_average [of xs newStatistics 0] c by (simp add: newStatistics_def)
  show ?thesis using c t n a by (simp add: calculateStats_def)
qed

lemma round_half_even_int: "round_half_even (of_int m) = m"
  by (simp add: round_half_even_def)

lemma round_half_even_error: "\<bar>of_int (round_half_even q) - q\<bar> \<le> 1 / 2"
proof -
  have "of_int \<lfloor>q\<rfloor> \<le> q" "q < of_int \<lfloor>q\<rfloor> + 1" by linarith+
  then show ?thesis by (auto simp: round_half_even_def Let_def)
qed

lemma binexp_bounds:
  assumes "0 < x"
  shows "2 powi (binexp x) \<le> x \<and> x < 2 powi (binexp x + 1)"
proof -
  obtain a b where q: "quotient_of x = (a, b)" by (cases "quotient_of x")
  then have b: "0 < b" and x: "x = of_int a / of_int b"
    using quotient_of_denom_pos [OF q] quotient_of_div [OF q] by simp_all
  with assms have a: "0 < a" by (simp add: zero_less_divide_iff)
  define la lb where "la = bitlen a" and "lb = bitlen b"
  from bitlen_bounds [OF a] have A: "2 ^ nat (la - 1) \<le> a" "a < 2 ^ nat la" by (simp_all add: la_def)
  from bitlen_bounds [OF b] have B: "2 ^ nat (lb - 1) \<le> b" "b < 2 ^ nat lb" by (simp_all add: lb_def)
  have la: "1 \<le> la" using a bitlen_eq_zero_iff [of a] bitlen_nonneg [of a] unfolding la_def by linarith
  have lb: "1 \<le> lb" using b bitlen_eq_zero_iff [of b] bitlen_nonneg [of b] unfolding lb_def by linarith
  have A': "(of_int a :: rat) < 2 powi la"
  proof -
    have "(of_int a :: rat) < of_int (2 ^ nat la)" using A(2) by (simp only: of_int_less_iff)
    then show ?thesis using la by (simp add: power_int_def)
  qed
  have B': "(2 :: rat) powi (lb - 1) \<le> of_int b"
  proof -
    have "(of_int (2 ^ nat (lb - 1)) :: rat) \<le> of_int b" using B(1) by (simp only: of_int_le_iff)
    then show ?thesis using lb by (simp add: power_int_def)
  qed
  have bpos: "(0 :: rat) < of_int b" using b by simp
  have "x < 2 powi la / 2 powi (lb - 1)"
  proof -
    have "x < 2 powi la / of_int b" unfolding x using A' bpos by (simp add: divide_strict_right_mono)
    also have "\<dots> \<le> 2 powi la / 2 powi (lb - 1)"
      using B' b by (intro divide_left_mono) (auto intro!: mult_pos_pos)
    finally show ?thesis .
  qed
  then have up: "x < 2 powi (la - lb + 1)"
    by (simp add: power_int_diff [symmetric] algebra_simps)
  show ?thesis
  proof (cases "2 powi (la - lb) \<le> x")
    case True
    then have "binexp x = la - lb" by (simp add: binexp_def q la_def lb_def)
    with True up show ?thesis by simp
  next
    case False
    then have e: "binexp x = la - lb - 1" by (simp add: binexp_def q la_def lb_def)
    have A'': "(2 :: rat) powi (la - 1) \<le> of_int a"
    proof -
      have "(of_int (2 ^ nat (la - 1)) :: rat) \<le> of_int a" using A(1) by (simp only: of_int_le_iff)
      then show ?thesis using la by (simp add: power_int_def)
    qed
    have B'': "(of_int b :: rat) < 2 powi lb"
    proof -
      have "(of_int b :: rat) < of_int (2 ^ nat lb)" using B(2) by (simp only: of_int_less_iff)
      then show ?thesis using lb by (simp add: power_int_def)
    qed
    have "2 powi (la - 1) / 2 powi lb \<le> x"
    proof -
      have "(2 :: rat) powi (la - 1) / 2 powi lb \<le> 2 powi (la - 1) / of_int b"
        using B'' b by (intro divide_left_mono) (auto intro!: mult_pos_pos)
      also have "\<dots> \<le> x" unfolding x using A'' bpos by (simp add: divide_right_mono)
      finally show ?thesis .
    qed
    then have "2 powi (la - lb - 1) \<le> x"
      by (simp add: power_int_diff [symmetric] algebra_simps)
    with False e show ?thesis by simp
  qed
qed


lemma f64_round_error:
  "\<bar>f64_round x - x\<bar> \<le> \<bar>x\<bar> / 2 ^ 53"
proof (cases "x = 0")
  case True
  then show ?thesis by (simp add: f64_round_def)
next
  case False
  define e where "e = binexp \<bar>x\<bar>"
  define u :: rat where "u = 2 powi (e - 52)"
  define m where "m = round_half_even (\<bar>x\<bar> / u)"
  have upos: "0 < u" by (simp add: u_def)
  from False have "0 < \<bar>x\<bar>" by simp
  from binexp_bounds [OF this] have lo: "2 powi e \<le> \<bar>x\<bar>" by (simp add: e_def)
  have r: "f64_round x = sgn x * of_int m * u"
    using False by (simp add: f64_round_def Let_def m_def u_def e_def)
  have "f64_round x - x = sgn x * (of_int m * u) - sgn x * \<bar>x\<bar>"
    by (simp add: r mult_sgn_abs mult.assoc)
  then have "f64_round x - x = sgn x * (of_int m * u - \<bar>x\<bar>)"
    by (simp only: right_diff_distrib)
  then have "\<bar>f64_round x - x\<bar> = \<bar>of_int m * u - \<bar>x\<bar>\<bar>"
    using False by (simp add: abs_mult abs_sgn_eq)
  also have "of_int m * u - \<bar>x\<bar> = u * (of_int m - \<bar>x\<bar> / u)"
    using upos by (simp add: algebra_simps)
  also have "\<bar>u * (of_int m - \<bar>x\<bar> / u)\<bar> = u * \<bar>of_int m - \<bar>x\<bar> / u\<bar>"
    using upos by (simp add: abs_mult)
  also have "\<dots> \<le> u * (1 / 2)"
    using round_half_even_error [of "\<bar>x\<bar> / u"] upos unfolding m_def
    by (intro mult_left_mono) simp_all
  also have "u * (1 / 2) = 2 powi e / 2 ^ 53"
  proof -
    have "u = 2 powi e / 2 powi 52" by (simp add: u_def power_int_diff)
    then show ?thesis by simp
  qed
  also have "\<dots> \<le> \<bar>x\<bar> / 2 ^ 53"
    using lo by (simp add: divide_right_mono)
  finally show ?thesis .
qed

lemma f64_round_of_int:
  assumes "\<bar>k\<bar> \<le> 2 ^ 53"
  shows "f64_round (of_int k) = of_int k"
proof (cases "k = 0")
  case True
  then show ?thesis by (simp add: f64_round_def)
next
  case False
  define e where "e = binexp \<bar>of_int k\<bar>"
  define u :: rat where "u = 2 powi (e - 52)"
  from False have pos: "(0 :: rat) < \<bar>of_int k\<bar>" by simp
  from binexp_bounds [OF pos] have lo: "2 powi e \<le> (\<bar>of_int k\<bar> :: rat)"
    and hi: "(\<bar>of_int k\<bar> :: rat) < 2 powi (e + 1)" by (simp_all add: e_def)
  have k1: "(1 :: rat) \<le> \<bar>of_int k\<bar>"
  proof -
    have "1 \<le> \<bar>k\<bar>" using False by simp
    then have "(of_int 1 :: rat) \<le> of_int \<bar>k\<bar>" by (simp only: of_int_le_iff)
    then show ?thesis by simp
  qed
  have kle: "(\<bar>of_int k\<bar> :: rat) \<le> 2 ^ 53"
  proof -
    have "(of_int \<bar>k\<bar> :: rat) \<le> of_int (2 ^ 53)" using assms by (simp only: of_int_le_iff)
    then show ?thesis by simp
  qed
  have e0: "0 \<le> e"
  proof (rule ccontr)
    assume "\<not> 0 \<le> e"
    then have "e + 1 \<le> 0" by simp
    then have "(2 :: rat) powi (e + 1) \<le> 2 powi 0" by (intro power_int_increasing) simp_all
    with hi k1 show False by simp
  qed
  have e53: "e \<le> 53"
  proof (rule ccontr)
    assume "\<not> e \<le> 53"
    then have "54 \<le> e" by simp
    then have "(2 :: rat) powi 54 \<le> 2 powi e" by (intro power_int_increasing) simp_all
    with lo kle show False by simp
  qed
  have "\<exists>j. \<bar>of_int k\<bar> / u = (of_int j :: rat)"
  proof (cases "e \<le> 52")
    case True
    then have "u = 1 / 2 ^ nat (52 - e)"
      by (simp add: u_def power_int_def inverse_eq_divide power_one_over power_inverse) 
    then have "\<bar>of_int k\<bar> / u = (of_int (\<bar>k\<bar> * 2 ^ nat (52 - e)) :: rat)" by simp
    then show ?thesis by blast
  next
    case False
    with e53 have e: "e = 53" by simp
    then have u: "u = 2" by (simp add: u_def)
    from lo e kle have "(\<bar>of_int k\<bar> :: rat) = 2 ^ 53" by simp
    then have "\<bar>of_int k\<bar> / u = (of_int (2 ^ 52) :: rat)" by (simp add: u)
    then show ?thesis by blast
  qed
  then obtain j where j: "\<bar>of_int k\<bar> / u = (of_int j :: rat)" ..
  have upos: "0 < u" by (simp add: u_def)
  have "f64_round (of_int k) = sgn (of_int k) * of_int (round_half_even (\<bar>of_int k\<bar> / u)) * u"
    using \<open>k \<noteq> 0\<close> by (simp add: f64_round_def Let_def u_def e_def)
  also have "\<dots> = sgn (of_int k) * (\<bar>of_int k\<bar> / u) * u"
    by (simp only: j round_half_even_int)
  also have "\<dots> = of_int k"
    using upos by (simp add: mult_sgn_abs)
  finally show ?thesis .
qed

text \<open>
  Claim C6, as the specification states it, fails. \<open>AverageRespTime\<close> is a double, and
  the mean of three records with response times 100, 200 and 200 is \<open>500/3\<close>, which no
  double equals: the field holds the double nearest to it.
\<close>

theorem average_rounded_counterexample:
  "TotalRequests (calculateStats
     [\<lparr>Timestamp = ''2024-01-15 10:30:00'', IP = ''10.0.0.1'', Method = ''GET'', URL = ''/a'',
        StatusCode = 200, ResponseTime = 100\<rparr>,
      \<lparr>Timestamp = ''2024-01-15 10:30:01'', IP = ''10.0.0.2'', Method = ''GET'', URL = ''/b'',
        StatusCode = 200, ResponseTime = 200\<rparr>,
      \<lparr>Timestamp = ''2024-01-15 10:30:02'', IP = ''10.0.0.3'', Method = ''GET'', URL = ''/c'',
        StatusCode = 404, ResponseTime = 200\<rparr>]) = 3 \<and>
   AverageRespTime (calculateStats
     [\<lparr>Timestamp = ''2024-01-15 10:30:00'', IP = ''10.0.0.1'', Method = ''GET'', URL = ''/a'',
        StatusCode = 200, ResponseTime = 100\<rparr>,
      \<lparr>Timestamp = ''2024-01-15 10:30:01'', IP = ''10.0.0.2'', Method = ''GET'', URL = ''/b'',
        StatusCode = 200, ResponseTime = 200\<rparr>,
      \<lparr>Timestamp = ''2024-01-15 10:30:02'', IP = ''10.0.0.3'', Method = ''GET'', URL = ''/c'',
        StatusCode = 404, ResponseTime = 200\<rparr>]) \<noteq> (100 + 200 + 200) / 3"
  by code_simp

text \<open>
  The sum is accumulated in a 64-bit \<open>int\<close> and wraps around: two records with the
  largest response time \<open>Atoi\<close> accepts give an average of \<open>-1\<close>.
\<close>

lemma average_overflow_example:
  "AverageRespTime (calculateStats
     [\<lparr>Timestamp = ''t'', IP = ''10.0.0.1'', Method = ''GET'', URL = ''/a'',
        StatusCode = 200, ResponseTime = 9223372036854775807\<rparr>,
      \<lparr>Timestamp = ''t'', IP = ''10.0.0.1'', Method = ''GET'', URL = ''/a'',
        StatusCode = 200, ResponseTime = 9223372036854775807\<rparr>]) = - 1"
  by code_simp

text \<open>
  Claim C6, amended. \<open>AverageRespTime\<close> is 0 when \<open>TotalRequests\<close> is 0. Otherwise, when
  the sum of the response times fits a signed 64-bit integer, it is the double quotient
  of the sum and the count, each converted to a double. When moreover the sum and the
  count are at most \<open>2^53\<close> in magnitude, it is the exact mean rounded to the nearest
  double, within a relative error of \<open>2^-53\<close> of the mean, and equal to the mean when the
  count divides the sum.
\<close>

theorem calculateStats_average:
  "(TotalRequests (calculateStats xs) = 0 \<longrightarrow> AverageRespTime (calculateStats xs) = 0) \<and>
   (0 < TotalRequests (calculateStats xs) \<and>
    - (2 ^ 63) \<le> sum_list (map ResponseTime xs) \<and> sum_list (map ResponseTime xs) < 2 ^ 63 \<longrightarrow>
      AverageRespTime (calculateStats xs) =
        f64_div (f64_of_int (sum_list (map ResponseTime xs)))
                (f64_of_int (TotalRequests (calculateStats xs)))) \<and>
   (0 < TotalRequests (calculateStats xs) \<and> TotalRequests (calculateStats xs) \<le> 2 ^ 53 \<and>
    \<bar>sum_list (map ResponseTime xs)\<bar> \<le> 2 ^ 53 \<longrightarrow>
      AverageRespTime (calculateStats xs) =
        f64_round (of_int (sum_list (map ResponseTime xs)) /
                   of_int (TotalRequests (calculateStats xs))) \<and>
      \<bar>AverageRespTime (calculateStats xs) -
         of_int (sum_list (map ResponseTime xs)) / of_int (TotalRequests (calculateStats xs))\<bar>
        \<le> \<bar>of_int (sum_list (map ResponseTime xs)) /
             of_int (TotalRequests (calculateStats xs))\<bar> / 2 ^ 53 \<and>
      (TotalRequests (calculateStats xs) dvd sum_list (map ResponseTime xs) \<longrightarrow>
         AverageRespTime (calculateStats xs) =
           of_int (sum_list (map ResponseTime xs)) /
           of_int (TotalRequests (calculateStats xs))))"
proof -
  define S where "S = sum_list (map ResponseTime xs)"
  define n where "n = TotalRequests (calculateStats xs)"
  define avg where "avg = AverageRespTime (calculateStats xs)"
  have n: "n = int (length xs)" by (simp add: n_def calculateStats_total)
  have avg: "avg = (if xs = [] then 0
      else f64_div (f64_of_int (wrap64 S)) (f64_of_int n))"
    by (simp add: avg_def S_def n calculateStats_average_eq)
  have zero: "n = 0 \<longrightarrow> avg = 0" using n avg by simp
  have fits: "0 < n \<and> - (2 ^ 63) \<le> S \<and> S < 2 ^ 63 \<longrightarrow>
      avg = f64_div (f64_of_int S) (f64_of_int n)"
    using n avg by (auto simp: wrap64_id)
  have small: "avg = f64_round (of_int S / of_int n) \<and>
      \<bar>avg - of_int S / of_int n\<bar> \<le> \<bar>of_int S / of_int n\<bar> / 2 ^ 53 \<and>
      (n dvd S \<longrightarrow> avg = of_int S / of_int n)"
    if h: "0 < n" "n \<le> 2 ^ 53" "\<bar>S\<bar> \<le> 2 ^ 53"
  proof -
    from h(3) have "- (2 ^ 63) \<le> S" "S < 2 ^ 63" by simp_all
    with fits h(1) have "avg = f64_div (f64_of_int S) (f64_of_int n)" by simp
    moreover have "f64_of_int S = of_int S"
      unfolding f64_of_int_def using h(3) by (rule f64_round_of_int)
    moreover have "f64_of_int n = of_int n"
      unfolding f64_of_int_def using h(1,2) by (intro f64_round_of_int) simp
    ultimately have r: "avg = f64_round (of_int S / of_int n)" by (simp add: f64_div_def)
    have "avg = of_int S / of_int n" if d: "n dvd S"
    proof -
      from d obtain m where m: "S = n * m" ..
      have "\<bar>m\<bar> \<le> \<bar>n\<bar> * \<bar>m\<bar>" using h(1) by (simp add: mult_le_cancel_right1)
      with h(3) have "\<bar>m\<bar> \<le> 2 ^ 53" by (simp add: m abs_mult)
      from f64_round_of_int [OF this] show ?thesis
        using h(1) by (simp add: r m)
    qed
    with r f64_round_error [of "of_int S / of_int n"] show ?thesis by simp
  qed
  from zero fits small show ?thesis
    unfolding S_def n_def avg_def by blast
qed

theorem calculateStats_average_witness:
  "AverageRespTime (calculateStats []) = 0 \<and>
   AverageRespTime (calculateStats
     [\<lparr>Timestamp = ''2024-01-15 10:30:00'', IP = ''10.0.0.1'', Method = ''GET'', URL = ''/a'',
        StatusCode = 200, ResponseTime = 100\<rparr>,
      \<lparr>Timestamp = ''2024-01-15 10:30:01'', IP = ''10.0.0.2'', Method = ''GET'', URL = ''/b'',
        StatusCode = 200, ResponseTime = 200\<rparr>,
      \<lparr>Timestamp = ''2024-01-15 10:30:02'', IP = ''10.0.0.3'', Method = ''GET'', URL = ''/c'',
        StatusCode = 404, ResponseTime = 300\<rparr>]) = 200"
proof -
  let ?xs = "[\<lparr>Timestamp = ''2024-01-15 10:30:00'', IP = ''10.0.0.1'', Method = ''GET'',
        URL = ''/a'', StatusCode = 200, ResponseTime = 100\<rparr>,
      \<lparr>Timestamp = ''2024-01-15 10:30:01'', IP = ''10.0.0.2'', Method = ''GET'', URL = ''/b'',
        StatusCode = 200, ResponseTime = 200\<rparr>,
      \<lparr>Timestamp = ''2024-01-15 10:30:02'', IP = ''10.0.0.3'', Method = ''GET'', URL = ''/c'',
        StatusCode = 404, ResponseTime = 300\<rparr>]"
  have n0: "TotalRequests (calculateStats []) = 0" by (simp add: calculateStats_total)
  have n3: "TotalRequests (calculateStats ?xs) = 3" by (simp add: calculateStats_total)
  have s: "sum_list (map ResponseTime ?xs) = 600" by simp
  have h: "0 < TotalRequests (calculateStats ?xs) \<and> TotalRequests (calculateStats ?xs) \<le> 2 ^ 53 \<and>
    \<bar>sum_list (map ResponseTime ?xs)\<bar> \<le> 2 ^ 53"
    unfolding n3 s by simp
  have d: "TotalRequests (calculateStats ?xs) dvd sum_list (map ResponseTime ?xs)"
    unfolding n3 s by simp
  from calculateStats_average [of "[]"] n0
  have a0: "AverageRespTime (calculateStats []) = 0" by blast
  from calculateStats_average [of ?xs] h d
  have "AverageRespTime (calculateStats ?xs) =
     of_int (sum_list (map ResponseTime ?xs)) / of_int (TotalRequests (calculateStats ?xs))"
    by blast
  then have "AverageRespTime (calculateStats ?xs) = 200" unfolding n3 s by simp
  with a0 show ?thesis by simp
qed

section \<open>Properties of the line parser\<close>

lemma parseUintLoop_mono: "parseUintLoop s n = Inr m \<Longrightarrow> 0 \<le> n \<Longrightarrow> n \<le> m"
proof (induction s arbitrary: n)
  case Nil
  then show ?case by simp
next
  case (Cons c cs)
  from Cons.prems have d: "is_digit c" and r: "parseUintLoop cs (n * 10 + digit_val c) = Inr m"
    by (auto split: if_splits)
  from d have "0 \<le> digit_val c" by (simp add: is_digit_def digit_val_def)
  with Cons.prems(2) have "n \<le> n * 10 + digit_val c" "0 \<le> n * 10 + digit_val c" by auto
  with Cons.IH [OF r] show ?case by simp
qed

lemma parseUintLoop_digits: "parseUintLoop s n = Inr m \<Longrightarrow> list_all is_digit s"
  by (induction s arbitrary: n) (auto split: if_splits)

lemma parseUint_digits: "parseUint s = Inr m \<Longrightarrow> s \<noteq> [] \<and> list_all is_digit s \<and> 0 \<le> m"
  using parseUintLoop_mono [of s 0 m] parseUintLoop_digits [of s 0 m]
  by (auto simp: parseUint_def split: if_splits)

lemma atoi_InrD:
  assumes "atoi s = Inr v"
  shows "- (2 ^ 63) \<le> v \<and> v < 2 ^ 63 \<and> s \<noteq> [] \<and> list_all is_digit (tl s) \<and>
         (hd s \<noteq> CHR ''-'' \<longrightarrow> 0 \<le> v) \<and> (hd s = CHR ''-'' \<longrightarrow> v \<le> 0) \<and>
         (is_digit (hd s) \<or> hd s = CHR ''+'' \<or> hd s = CHR ''-'')"
proof (cases s)
  case Nil
  with assms show ?thesis by (simp add: atoi_def parseInt_def)
next
  case (Cons c cs)
  let ?digits = "if c = CHR ''+'' \<or> c = CHR ''-'' then cs else s"
  from assms Cons obtain un where un: "parseUint ?digits = Inr un"
    by (cases "parseUint ?digits"; cases "projl (parseUint ?digits)")
       (auto simp: atoi_def parseInt_def Let_def maxUint64_def split: if_splits sum.splits num_error.splits)
  from parseUint_digits [OF un] have d: "?digits \<noteq> []" "list_all is_digit ?digits" "0 \<le> un"
    by simp_all
  from assms Cons un have v: "v = (if c = CHR ''-'' then - un else un)"
    and r: "\<not> (c \<noteq> CHR ''-'' \<and> 2 ^ 63 \<le> un)" "\<not> (c = CHR ''-'' \<and> 2 ^ 63 < un)"
    by (auto simp: atoi_def parseInt_def Let_def split: if_splits)
  from d(2) Cons have "list_all is_digit cs" by (auto split: if_splits)
  moreover from d(2) Cons have "is_digit c \<or> c = CHR ''+'' \<or> c = CHR ''-''"
    by (auto split: if_splits)
  ultimately show ?thesis using v r d(3) Cons by auto
qed

lemma not_digit_space: "\<not> is_digit (CHR '' '')"
  by (simp add: is_digit_def)

lemma atoi_space: "CHR '' '' \<in> set s \<Longrightarrow> \<exists>err. atoi s = Inl err"
proof (rule ccontr)
  assume sp: "CHR '' '' \<in> set s" and "\<nexists>err. atoi s = Inl err"
  then obtain v where "atoi s = Inr v" by (cases "atoi s") auto
  from atoi_InrD [OF this] have ne: "s \<noteq> []" and tl: "list_all is_digit (tl s)"
    and hd: "is_digit (hd s) \<or> hd s = CHR ''+'' \<or> hd s = CHR ''-''" by simp_all
  from sp ne have "hd s = CHR '' '' \<or> CHR '' '' \<in> set (tl s)" by (cases s) auto
  with hd tl not_digit_space show False by (auto simp: list_all_iff)
qed

lemma split_comma_nonempty: "split_comma s \<noteq> []"
  by (induction s) (auto split: list.splits)

lemma length_split_comma: "length (split_comma s) = Suc (count_list s (CHR '',''))"
  by (induction s) (auto split: list.splits simp: split_comma_nonempty)

lemma split_comma_no_comma: "f \<in> set (split_comma s) \<Longrightarrow> CHR '','' \<notin> set f"
  by (induction s arbitrary: f) (auto split: list.splits if_splits)

lemma join_split_comma: "join_comma (split_comma s) = s"
proof (induction s)
  case Nil
  show ?case by simp
next
  case (Cons c cs)
  obtain f fs where sp: "split_comma cs = f # fs"
    using split_comma_nonempty [of cs] by (cases "split_comma cs") auto
  show ?case
  proof (cases "c = CHR '',''")
    case True
    with Cons sp show ?thesis by simp
  next
    case False
    with Cons sp show ?thesis by (cases fs) auto
  qed
qed

lemma count_join_comma:
  "fs \<noteq> [] \<Longrightarrow> Suc (count_list (join_comma fs) (CHR '','')) =
     length fs + sum_list (map (\<lambda>f. count_list f (CHR '','')) fs)"
  by (induction fs rule: join_comma.induct) auto

lemma count_list_pos: "x \<in> set xs \<Longrightarrow> 0 < count_list xs x"
  by (induction xs) auto

lemma sum_list_pos_member:
  "f \<in> set fs \<Longrightarrow> 0 < g f \<Longrightarrow> 0 < sum_list (map g fs)" for g :: "'a \<Rightarrow> nat"
  by (induction fs) auto

lemma length_split_join:
  assumes "f \<in> set fs" "CHR '','' \<in> set f"
  shows "length fs < length (split_comma (join_comma fs))"
proof -
  from assms(1) have ne: "fs \<noteq> []" by auto
  have "0 < sum_list (map (\<lambda>f. count_list f (CHR '','')) fs)"
    using sum_list_pos_member [OF assms(1), of "\<lambda>f. count_list f (CHR '','')"]
      count_list_pos [OF assms(2)] by simp
  with count_join_comma [OF ne] show ?thesis by (simp add: length_split_comma)
qed

lemma parseLogLine_InrD:
  assumes "parseLogLine line n = Inr e"
  shows "length (split_comma line) = 6"
    and "atoi (split_comma line ! 4) = Inr (StatusCode e)"
    and "atoi (split_comma line ! 5) = Inr (ResponseTime e)"
    and "Timestamp e = split_comma line ! 0" and "IP e = split_comma line ! 1"
    and "Method e = split_comma line ! 2" and "URL e = split_comma line ! 3"
  using assms by (auto simp: parseLogLine_def Let_def split: if_splits sum.splits)

lemma parseLogLine_Inl_iff:
  "(\<exists>err. parseLogLine line n = Inl err) \<longleftrightarrow>
     length (split_comma line) \<noteq> 6 \<or> (\<exists>err. atoi (split_comma line ! 4) = Inl err) \<or>
     (\<exists>err. atoi (split_comma line ! 5) = Inl err)"
  by (auto simp: parseLogLine_def Let_def split: if_splits sum.splits)


lemma parseLogLine_fields:
  assumes "parseLogLine line n = Inr e"
  shows "[Timestamp e, IP e, Method e, URL e] = take 4 (split_comma line)"
proof -
  from parseLogLine_InrD(1) [OF assms] obtain a b c d x y
    where "split_comma line = [a, b, c, d, x, y]"
    by (auto simp: length_Suc_conv eval_nat_numeral)
  with parseLogLine_InrD(4-7) [OF assms] show ?thesis by simp
qed

text \<open>
  Claim C10. \<open>parseLogLine\<close> trims nothing and knows no quoting. The fields are the
  text between the commas, verbatim: joining them with commas gives the line back, no
  field holds a comma, and an accepted line's four text fields are its first four
  pieces. So a line of six fields whose status code or response time field holds a
  space is malformed, and six CSV fields of which one holds a comma (as a quoted field
  may) make a line of more than six pieces, which is malformed.
\<close>

theorem parseLogLine_verbatim:
  "join_comma (split_comma line) = line \<and>
   (\<forall>f \<in> set (split_comma line). CHR '','' \<notin> set f) \<and>
   (parseLogLine line n = Inr e \<longrightarrow>
      [Timestamp e, IP e, Method e, URL e] = take 4 (split_comma line)) \<and>
   (length (split_comma line) = 6 \<and>
    (CHR '' '' \<in> set (split_comma line ! 4) \<or> CHR '' '' \<in> set (split_comma line ! 5)) \<longrightarrow>
      (\<exists>err. parseLogLine line n = Inl err)) \<and>
   (length fs = 6 \<and> (\<exists>f \<in> set fs. CHR '','' \<in> set f) \<longrightarrow>
      parseLogLine (join_comma fs) n = Inl (BadFormat (n + 1)))"
proof (intro conjI impI ballI)
  show "join_comma (split_comma line) = line" by (rule join_split_comma)
next
  fix f assume "f \<in> set (split_comma line)"
  then show "CHR '','' \<notin> set f" by (rule split_comma_no_comma)
next
  assume "parseLogLine line n = Inr e"
  then show "[Timestamp e, IP e, Method e, URL e] = take 4 (split_comma line)"
    by (rule parseLogLine_fields)
next
  assume "length (split_comma line) = 6 \<and>
    (CHR '' '' \<in> set (split_comma line ! 4) \<or> CHR '' '' \<in> set (split_comma line ! 5))"
  then have "(\<exists>err. atoi (split_comma line ! 4) = Inl err) \<or>
     (\<exists>err. atoi (split_comma line ! 5) = Inl err)"
    using atoi_space by blast
  then show "\<exists>err. parseLogLine line n = Inl err"
    by (simp add: parseLogLine_Inl_iff)
next
  assume "length fs = 6 \<and> (\<exists>f \<in> set fs. CHR '','' \<in> set f)"
  then have "length (split_comma (join_comma fs)) \<noteq> 6"
    using length_split_join [of _ fs] by fastforce
  then show "parseLogLine (join_comma fs) n = Inl (BadFormat (n + 1))"
    by (simp add: parseLogLine_def)
qed

theorem parseLogLine_verbatim_witness:
  \<open>join_comma (split_comma ''2024-01-15 10:30:00,10.0.0.1,GET,/x, 200,5'') =
     ''2024-01-15 10:30:00,10.0.0.1,GET,/x, 200,5'' \<and>
   take 4 (split_comma ''t,10.0.0.1,GET, /x ,200,5'') = [''t'', ''10.0.0.1'', ''GET'', '' /x ''] \<and>
   CHR '','' \<notin> set ''10.0.0.1'' \<and>
   (\<exists>err. parseLogLine ''2024-01-15 10:30:00,10.0.0.1,GET,/x, 200,5'' 1 = Inl err) \<and>
   (\<exists>err. parseLogLine ''2024-01-15 10:30:00,10.0.0.1,GET,/x,200,5 '' 1 = Inl err) \<and>
   parseLogLine (join_comma [''t'', ''10.0.0.1'', ''GET'', [CHR 0x22] @ ''/a,b'' @ [CHR 0x22],
       ''200'', ''5'']) 1 = Inl (BadFormat 2)\<close>
proof -
  let ?e = "\<lparr>Timestamp = ''t'', IP = ''10.0.0.1'', Method = ''GET'', URL = '' /x '',
        StatusCode = 200, ResponseTime = 5\<rparr>"
  have acc: "parseLogLine ''t,10.0.0.1,GET, /x ,200,5'' 1 = Inr ?e" by code_simp
  have s1: "length (split_comma ''2024-01-15 10:30:00,10.0.0.1,GET,/x, 200,5'') = 6 \<and>
    (CHR '' '' \<in> set (split_comma ''2024-01-15 10:30:00,10.0.0.1,GET,/x, 200,5'' ! 4) \<or>
     CHR '' '' \<in> set (split_comma ''2024-01-15 10:30:00,10.0.0.1,GET,/x, 200,5'' ! 5))"
    by simp
  have s2: "length (split_comma ''2024-01-15 10:30:00,10.0.0.1,GET,/x,200,5 '') = 6 \<and>
    (CHR '' '' \<in> set (split_comma ''2024-01-15 10:30:00,10.0.0.1,GET,/x,200,5 '' ! 4) \<or>
     CHR '' '' \<in> set (split_comma ''2024-01-15 10:30:00,10.0.0.1,GET,/x,200,5 '' ! 5))"
    by simp
  have q: "length [''t'', ''10.0.0.1'', ''GET'', [CHR 0x22] @ ''/a,b'' @ [CHR 0x22], ''200'', ''5''] = 6 \<and>
    (\<exists>f \<in> set [''t'', ''10.0.0.1'', ''GET'', [CHR 0x22] @ ''/a,b'' @ [CHR 0x22], ''200'', ''5''].
       CHR '','' \<in> set f)"
    by simp
  have m: "''10.0.0.1'' \<in> set (split_comma ''t,10.0.0.1,GET, /x ,200,5'')" by simp
  from parseLogLine_verbatim [of "''t,10.0.0.1,GET, /x ,200,5''", THEN conjunct2, THEN conjunct1,
      THEN bspec, OF m]
  have nc: "CHR '','' \<notin> set ''10.0.0.1''" .
  from nc parseLogLine_verbatim [of "''2024-01-15 10:30:00,10.0.0.1,GET,/x, 200,5''" 1] s1
    parseLogLine_verbatim [of "''2024-01-15 10:30:00,10.0.0.1,GET,/x,200,5 ''" 1] s2
    parseLogLine_verbatim [of "''t,10.0.0.1,GET, /x ,200,5''" 1 ?e] acc
    parseLogLine_verbatim [of _ 1 _ "[''t'', ''10.0.0.1'', ''GET'', [CHR 0x22] @ ''/a,b'' @ [CHR 0x22], ''200'', ''5'']"] q
  show ?thesis by simp
qed

text \<open>
  Claim C8, as the specification states it, fails: \<open>Atoi\<close> accepts a sign, so a line
  whose sixth field is \<open>-5\<close> is accepted with a negative response time.
\<close>

theorem responseTime_negative_counterexample:
  "parseLogLine ''2024-01-15 10:30:00,10.0.0.1,GET,/x,200,-5'' 1 =
     Inr \<lparr>Timestamp = ''2024-01-15 10:30:00'', IP = ''10.0.0.1'', Method = ''GET'',
          URL = ''/x'', StatusCode = 200, ResponseTime = - 5\<rparr> \<and>
   ResponseTime \<lparr>Timestamp = ''2024-01-15 10:30:00'', IP = ''10.0.0.1'', Method = ''GET'',
          URL = ''/x'', StatusCode = 200, ResponseTime = - 5\<rparr> < 0"
  by code_simp

text \<open>
  Claim C8, amended. For every line that \<open>parseLogLine\<close> accepts, \<open>ResponseTime\<close> is
  the integer its sixth field denotes, a signed 64-bit value; it is non-negative
  whenever that field does not begin with a minus sign.
\<close>

theorem parseLogLine_responseTime:
  assumes "parseLogLine line n = Inr e"
  shows "atoi (split_comma line ! 5) = Inr (ResponseTime e) \<and>
         - (2 ^ 63) \<le> ResponseTime e \<and> ResponseTime e < 2 ^ 63 \<and>
         (hd (split_comma line ! 5) \<noteq> CHR ''-'' \<longrightarrow> 0 \<le> ResponseTime e)"
  using parseLogLine_InrD(3) [OF assms] atoi_InrD [of "split_comma line ! 5" "ResponseTime e"]
  by simp

theorem parseLogLine_responseTime_witness:
  "atoi (split_comma ''2024-01-15 10:30:00,10.0.0.1,GET,/x,200,35'' ! 5) = Inr 35 \<and>
   - (2 ^ 63) \<le> (35 :: int) \<and> (35 :: int) < 2 ^ 63 \<and> 0 \<le> (35 :: int)"
proof -
  let ?e = "\<lparr>Timestamp = ''2024-01-15 10:30:00'', IP = ''10.0.0.1'', Method = ''GET'',
          URL = ''/x'', StatusCode = 200, ResponseTime = 35\<rparr>"
  have acc: "parseLogLine ''2024-01-15 10:30:00,10.0.0.1,GET,/x,200,35'' 1 = Inr ?e"
    by code_simp
  have hd: "hd (split_comma ''2024-01-15 10:30:00,10.0.0.1,GET,/x,200,35'' ! 5) \<noteq> CHR ''-''"
    by simp
  from parseLogLine_responseTime [OF acc] hd show ?thesis by simp
qed

section \<open>Properties of the filter\<close>

lemma filterLoop_sent:
  "sent (filterLoop xs m out) = sent out @ filter (\<lambda>e. m \<le> StatusCode e) xs"
  by (induction xs arbitrary: out) simp_all

lemma filterLoop_closed: "closed (filterLoop xs m out) = closed out"
  by (induction xs arbitrary: out) simp_all

lemma filterLogs_sent: "sent (filterLogs xs m) = filter (\<lambda>e. m \<le> StatusCode e) xs"
  by (simp add: filterLogs_def filterLoop_sent makeChan_def)

text \<open>
  Claim C3. For every input sequence and every threshold, the sequence \<open>filterLogs\<close>
  delivers consists of exactly the input records whose status code is at least the
  threshold, every one of them and no other, in their input order; the output is closed
  once the input has closed, and it is still open for as long as the loop is receiving.
\<close>

theorem filterLogs_exact:
  "sent (filterLogs input minStatus) = filter (\<lambda>e. minStatus \<le> StatusCode e) input \<and>
   set (sent (filterLogs input minStatus)) = {e \<in> set input. minStatus \<le> StatusCode e} \<and>
   closed (filterLogs input minStatus) \<and>
   \<not> closed (filterLoop input minStatus makeChan)"
  by (simp add: filterLogs_sent filterLoop_closed) (simp add: filterLogs_def makeChan_def)

text \<open>
  Claim C7. The error count over a whole sequence equals the error count over the same
  sequence filtered with threshold 400; and on the filtered branch every record counts
  as an error, so there the error count equals the total.
\<close>

theorem errorCount_filtered:
  "ErrorCount (calculateStats input) =
     ErrorCount (calculateStats (sent (filterLogs input 400))) \<and>
   ErrorCount (calculateStats (sent (filterLogs input 400))) =
     TotalRequests (calculateStats (sent (filterLogs input 400)))"
  by (simp add: calculateStats_errors calculateStats_total filterLogs_sent)


section \<open>Properties of the splitter\<close>

lemma tee_inv_init: "tee input bufferSize = Some s0 \<Longrightarrow> tee_inv input bufferSize s0"
  by (auto simp: tee_def tee_inv_def split: if_splits)

lemma tee_inv_step:
  assumes "tee_step bufferSize s s'" "tee_inv input bufferSize s"
  shows "tee_inv input bufferSize s'"
  using assms
proof (cases rule: tee_step.cases)
  case (recv v rest)
  with assms(2) show ?thesis by (simp add: tee_inv_def)
next
  case (send1 v)
  with assms(2) show ?thesis by (simp add: tee_inv_def)
next
  case (hand1 v)
  with assms(2) show ?thesis by (simp add: tee_inv_def)
next
  case (send2 v)
  with assms(2) show ?thesis by (simp add: tee_inv_def)
next
  case (hand2 v)
  with assms(2) show ?thesis by (simp add: tee_inv_def)
next
  case eof
  with assms(2) show ?thesis by (simp add: tee_inv_def)
next
  case close2
  with assms(2) show ?thesis by (simp add: tee_inv_def)
next
  case close1
  with assms(2) show ?thesis by (simp add: tee_inv_def)
next
  case (take1 v rest)
  with assms(2) show ?thesis by (auto simp: tee_inv_def split: tee_pc.splits)
next
  case (take2 v rest)
  with assms(2) show ?thesis by (auto simp: tee_inv_def split: tee_pc.splits)
qed

lemma tee_inv_steps:
  "(tee_step bufferSize)\<^sup>*\<^sup>* s s' \<Longrightarrow> tee_inv input bufferSize s \<Longrightarrow> tee_inv input bufferSize s'"
  by (induction rule: rtranclp_induct) (auto intro: tee_inv_step)

lemma tee_measure_step: "tee_step bufferSize s s' \<Longrightarrow> tee_measure s' < tee_measure s"
  by (induction rule: tee_step.induct) (simp_all add: tee_measure_def)

lemma tee_progress:
  assumes "tee_inv input bufferSize s" "\<not> tee_finished s"
  shows "\<exists>s'. tee_step bufferSize s s'"
proof (cases "t_pc s")
  case TeeRecv
  then show ?thesis by (cases "t_in s") (blast intro: tee_step.eof tee_step.recv)+
next
  case (TeeSend1 v)
  then show ?thesis by (cases "t_buf1 s") (blast intro: tee_step.hand1 tee_step.take1)+
next
  case (TeeSend2 v)
  then show ?thesis by (cases "t_buf2 s") (blast intro: tee_step.hand2 tee_step.take2)+
next
  case TeeClose2
  then show ?thesis by (blast intro: tee_step.close2)
next
  case TeeClose1
  then show ?thesis by (blast intro: tee_step.close1)
next
  case TeeDone
  with assms have "t_buf1 s \<noteq> [] \<or> t_buf2 s \<noteq> []"
    by (auto simp: tee_inv_def tee_finished_def)
  then show ?thesis
    by (cases "t_buf1 s"; cases "t_buf2 s") (blast intro: tee_step.take1 tee_step.take2)+
qed

lemma tee_completes:
  "tee_inv input bufferSize s \<Longrightarrow> \<exists>s'. (tee_step bufferSize)\<^sup>*\<^sup>* s s' \<and> tee_finished s'"
proof (induction "tee_measure s" arbitrary: s rule: less_induct)
  case less
  show ?case
  proof (cases "tee_finished s")
    case True
    then show ?thesis by blast
  next
    case False
    from tee_progress [OF less.prems False] obtain s1 where s1: "tee_step bufferSize s s1" ..
    from less.hyps [OF tee_measure_step [OF s1] tee_inv_step [OF s1 less.prems]]
    obtain s' where "(tee_step bufferSize)\<^sup>*\<^sup>* s1 s'" "tee_finished s'" by blast
    with s1 show ?thesis by (blast intro: converse_rtranclp_into_rtranclp)
  qed
qed

lemma tee_inv_prefix:
  assumes "tee_inv input bufferSize s"
  shows "prefix (t_got1 s) input \<and> prefix (t_got2 s) input"
proof -
  from assms have "\<exists>r. t_got1 s @ r = input" 
    by (cases "t_pc s") (auto simp: tee_inv_def)
  moreover from assms have "\<exists>r. t_got2 s @ r = input" 
    by (cases "t_pc s") (simp_all add: tee_inv_def, (metis append.assoc)+)
  ultimately show ?thesis unfolding prefix_def by metis
qed

lemma tee_inv_closed:
  assumes "tee_inv input bufferSize s" "t_closed1 s \<or> t_closed2 s"
  shows "t_in s = [] \<and> t_got1 s @ t_buf1 s = input \<and> t_got2 s @ t_buf2 s = input"
  using assms by (cases "t_pc s") (auto simp: tee_inv_def)

text \<open>
  Claim C2. For every input sequence and every buffer capacity of at least 1, \<open>tee\<close>
  starts, and in every state of every run: each consumer has received a prefix of the
  input, so the records in the input's order; no buffer holds more than the capacity;
  an output is closed only when the input is exhausted and every record has been sent on
  both outputs; once both outputs are closed and drained, each consumer has received
  exactly the input, hence the same multiset as the other; and the run can always be
  continued to that end.
\<close>

theorem tee_delivers:
  assumes "1 \<le> bufferSize"
  shows "\<exists>s0. tee input bufferSize = Some s0 \<and>
     (\<forall>s. (tee_step bufferSize)\<^sup>*\<^sup>* s0 s \<longrightarrow>
        prefix (t_got1 s) input \<and> prefix (t_got2 s) input \<and>
        int (length (t_buf1 s)) \<le> bufferSize \<and> int (length (t_buf2 s)) \<le> bufferSize \<and>
        (t_closed1 s \<or> t_closed2 s \<longrightarrow>
           t_in s = [] \<and> t_got1 s @ t_buf1 s = input \<and> t_got2 s @ t_buf2 s = input) \<and>
        (tee_finished s \<longrightarrow>
           t_got1 s = input \<and> t_got2 s = input \<and>
           mset (t_got1 s) = mset input \<and> mset (t_got2 s) = mset input) \<and>
        (\<exists>s'. (tee_step bufferSize)\<^sup>*\<^sup>* s s' \<and> tee_finished s'))"
proof -
  from assms obtain s0 where s0: "tee input bufferSize = Some s0"
    by (auto simp: tee_def)
  have "prefix (t_got1 s) input \<and> prefix (t_got2 s) input \<and>
        int (length (t_buf1 s)) \<le> bufferSize \<and> int (length (t_buf2 s)) \<le> bufferSize \<and>
        (t_closed1 s \<or> t_closed2 s \<longrightarrow>
           t_in s = [] \<and> t_got1 s @ t_buf1 s = input \<and> t_got2 s @ t_buf2 s = input) \<and>
        (tee_finished s \<longrightarrow>
           t_got1 s = input \<and> t_got2 s = input \<and>
           mset (t_got1 s) = mset input \<and> mset (t_got2 s) = mset input) \<and>
        (\<exists>s'. (tee_step bufferSize)\<^sup>*\<^sup>* s s' \<and> tee_finished s')"
    if run: "(tee_step bufferSize)\<^sup>*\<^sup>* s0 s" for s
  proof -
    from tee_inv_steps [OF run tee_inv_init [OF s0]] have inv: "tee_inv input bufferSize s" .
    have bound: "int (length (t_buf1 s)) \<le> bufferSize \<and> int (length (t_buf2 s)) \<le> bufferSize"
      using inv by (simp add: tee_inv_def)
    have fin: "t_got1 s = input \<and> t_got2 s = input \<and>
        mset (t_got1 s) = mset input \<and> mset (t_got2 s) = mset input" if "tee_finished s"
      using tee_inv_closed [OF inv] that by (simp add: tee_finished_def)
    from tee_inv_prefix [OF inv] bound tee_inv_closed [OF inv] fin tee_completes [OF inv]
    show ?thesis by blast
  qed
  with s0 show ?thesis by blast
qed

theorem tee_delivers_witness:
  "tee [\<lparr>Timestamp = ''2024-01-15 10:30:00'', IP = ''10.0.0.1'', Method = ''GET'', URL = ''/a'', StatusCode = 200, ResponseTime = 12\<rparr>,
        \<lparr>Timestamp = ''2024-01-15 10:30:01'', IP = ''10.0.0.2'', Method = ''POST'', URL = ''/b'', StatusCode = 500, ResponseTime = 40\<rparr>] 1 =
     Some \<lparr>t_in = [\<lparr>Timestamp = ''2024-01-15 10:30:00'', IP = ''10.0.0.1'', Method = ''GET'', URL = ''/a'', StatusCode = 200, ResponseTime = 12\<rparr>, \<lparr>Timestamp = ''2024-01-15 10:30:01'', IP = ''10.0.0.2'', Method = ''POST'', URL = ''/b'', StatusCode = 500, ResponseTime = 40\<rparr>], t_pc = TeeRecv, t_buf1 = [], t_buf2 = [], t_closed1 = False, t_closed2 = False, t_got1 = [], t_got2 = []\<rparr> \<and>
   (tee_step 1)\<^sup>*\<^sup>*
     \<lparr>t_in = [\<lparr>Timestamp = ''2024-01-15 10:30:00'', IP = ''10.0.0.1'', Method = ''GET'', URL = ''/a'', StatusCode = 200, ResponseTime = 12\<rparr>, \<lparr>Timestamp = ''2024-01-15 10:30:01'', IP = ''10.0.0.2'', Method = ''POST'', URL = ''/b'', StatusCode = 500, ResponseTime = 40\<rparr>], t_pc = TeeRecv, t_buf1 = [], t_buf2 = [], t_closed1 = False, t_closed2 = False, t_got1 = [], t_got2 = []\<rparr>
     \<lparr>t_in = [], t_pc = TeeDone, t_buf1 = [], t_buf2 = [], t_closed1 = True, t_closed2 = True, t_got1 = [\<lparr>Timestamp = ''2024-01-15 10:30:00'', IP = ''10.0.0.1'', Method = ''GET'', URL = ''/a'', StatusCode = 200, ResponseTime = 12\<rparr>, \<lparr>Timestamp = ''2024-01-15 10:30:01'', IP = ''10.0.0.2'', Method = ''POST'', URL = ''/b'', StatusCode = 500, ResponseTime = 40\<rparr>], t_got2 = [\<lparr>Timestamp = ''2024-01-15 10:30:00'', IP = ''10.0.0.1'', Method = ''GET'', URL = ''/a'', StatusCode = 200, ResponseTime = 12\<rparr>, \<lparr>Timestamp = ''2024-01-15 10:30:01'', IP = ''10.0.0.2'', Method = ''POST'', URL = ''/b'', StatusCode = 500, ResponseTime = 40\<rparr>]\<rparr> \<and>
   tee_finished \<lparr>t_in = [], t_pc = TeeDone, t_buf1 = [], t_buf2 = [], t_closed1 = True, t_closed2 = True, t_got1 = [\<lparr>Timestamp = ''2024-01-15 10:30:00'', IP = ''10.0.0.1'', Method = ''GET'', URL = ''/a'', StatusCode = 200, ResponseTime = 12\<rparr>, \<lparr>Timestamp = ''2024-01-15 10:30:01'', IP = ''10.0.0.2'', Method = ''POST'', URL = ''/b'', StatusCode = 500, ResponseTime = 40\<rparr>], t_got2 = [\<lparr>Timestamp = ''2024-01-15 10:30:00'', IP = ''10.0.0.1'', Method = ''GET'', URL = ''/a'', StatusCode = 200, ResponseTime = 12\<rparr>, \<lparr>Timestamp = ''2024-01-15 10:30:01'', IP = ''10.0.0.2'', Method = ''POST'', URL = ''/b'', StatusCode = 500, ResponseTime = 40\<rparr>]\<rparr> \<and>
   t_got1 \<lparr>t_in = [], t_pc = TeeDone, t_buf1 = [], t_buf2 = [], t_closed1 = True, t_closed2 = True, t_got1 = [\<lparr>Timestamp = ''2024-01-15 10:30:00'', IP = ''10.0.0.1'', Method = ''GET'', URL = ''/a'', StatusCode = 200, ResponseTime = 12\<rparr>, \<lparr>Timestamp = ''2024-01-15 10:30:01'', IP = ''10.0.0.2'', Method = ''POST'', URL = ''/b'', StatusCode = 500, ResponseTime = 40\<rparr>], t_got2 = [\<lparr>Timestamp = ''2024-01-15 10:30:00'', IP = ''10.0.0.1'', Method = ''GET'', URL = ''/a'', StatusCode = 200, ResponseTime = 12\<rparr>, \<lparr>Timestamp = ''2024-01-15 10:30:01'', IP = ''10.0.0.2'', Method = ''POST'', URL = ''/b'', StatusCode = 500, ResponseTime = 40\<rparr>]\<rparr> =
     [\<lparr>Timestamp = ''2024-01-15 10:30:00'', IP = ''10.0.0.1'', Method = ''GET'', URL = ''/a'', StatusCode = 200, ResponseTime = 12\<rparr>,
      \<lparr>Timestamp = ''2024-01-15 10:30:01'', IP = ''10.0.0.2'', Method = ''POST'', URL = ''/b'', StatusCode = 500, ResponseTime = 40\<rparr>] \<and>
   t_got2 \<lparr>t_in = [], t_pc = TeeDone, t_buf1 = [], t_buf2 = [], t_closed1 = True, t_closed2 = True, t_got1 = [\<lparr>Timestamp = ''2024-01-15 10:30:00'', IP = ''10.0.0.1'', Method = ''GET'', URL = ''/a'', StatusCode = 200, ResponseTime = 12\<rparr>, \<lparr>Timestamp = ''2024-01-15 10:30:01'', IP = ''10.0.0.2'', Method = ''POST'', URL = ''/b'', StatusCode = 500, ResponseTime = 40\<rparr>], t_got2 = [\<lparr>Timestamp = ''2024-01-15 10:30:00'', IP = ''10.0.0.1'', Method = ''GET'', URL = ''/a'', StatusCode = 200, ResponseTime = 12\<rparr>, \<lparr>Timestamp = ''2024-01-15 10:30:01'', IP = ''10.0.0.2'', Method = ''POST'', URL = ''/b'', StatusCode = 500, ResponseTime = 40\<rparr>]\<rparr> =
     [\<lparr>Timestamp = ''2024-01-15 10:30:00'', IP = ''10.0.0.1'', Method = ''GET'', URL = ''/a'', StatusCode = 200, ResponseTime = 12\<rparr>,
      \<lparr>Timestamp = ''2024-01-15 10:30:01'', IP = ''10.0.0.2'', Method = ''POST'', URL = ''/b'', StatusCode = 500, ResponseTime = 40\<rparr>]"
proof -
  let ?a = "\<lparr>Timestamp = ''2024-01-15 10:30:00'', IP = ''10.0.0.1'', Method = ''GET'', URL = ''/a'', StatusCode = 200, ResponseTime = 12\<rparr>"
  let ?b = "\<lparr>Timestamp = ''2024-01-15 10:30:01'', IP = ''10.0.0.2'', Method = ''POST'', URL = ''/b'', StatusCode = 500, ResponseTime = 40\<rparr>"
  let ?s0 = "\<lparr>t_in = [?a, ?b], t_pc = TeeRecv, t_buf1 = [], t_buf2 = [], t_closed1 = False, t_closed2 = False, t_got1 = [], t_got2 = []\<rparr>"
  let ?s1 = "\<lparr>t_in = [?b], t_pc = TeeSend1 ?a, t_buf1 = [], t_buf2 = [], t_closed1 = False, t_closed2 = False, t_got1 = [], t_got2 = []\<rparr>"
  let ?s2 = "\<lparr>t_in = [?b], t_pc = TeeSend2 ?a, t_buf1 = [?a], t_buf2 = [], t_closed1 = False, t_closed2 = False, t_got1 = [], t_got2 = []\<rparr>"
  let ?s3 = "\<lparr>t_in = [?b], t_pc = TeeRecv, t_buf1 = [?a], t_buf2 = [?a], t_closed1 = False, t_closed2 = False, t_got1 = [], t_got2 = []\<rparr>"
  let ?s4 = "\<lparr>t_in = [], t_pc = TeeSend1 ?b, t_buf1 = [?a], t_buf2 = [?a], t_closed1 = False, t_closed2 = False, t_got1 = [], t_got2 = []\<rparr>"
  let ?s5 = "\<lparr>t_in = [], t_pc = TeeSend1 ?b, t_buf1 = [], t_buf2 = [?a], t_closed1 = False, t_closed2 = False, t_got1 = [?a], t_got2 = []\<rparr>"
  let ?s6 = "\<lparr>t_in = [], t_pc = TeeSend2 ?b, t_buf1 = [?b], t_buf2 = [?a], t_closed1 = False, t_closed2 = False, t_got1 = [?a], t_got2 = []\<rparr>"
  let ?s7 = "\<lparr>t_in = [], t_pc = TeeSend2 ?b, t_buf1 = [?b], t_buf2 = [], t_closed1 = False, t_closed2 = False, t_got1 = [?a], t_got2 = [?a]\<rparr>"
  let ?s8 = "\<lparr>t_in = [], t_pc = TeeRecv, t_buf1 = [?b], t_buf2 = [], t_closed1 = False, t_closed2 = False, t_got1 = [?a], t_got2 = [?a, ?b]\<rparr>"
  let ?s9 = "\<lparr>t_in = [], t_pc = TeeClose2, t_buf1 = [?b], t_buf2 = [], t_closed1 = False, t_closed2 = False, t_got1 = [?a], t_got2 = [?a, ?b]\<rparr>"
  let ?s10 = "\<lparr>t_in = [], t_pc = TeeClose1, t_buf1 = [?b], t_buf2 = [], t_closed1 = False, t_closed2 = True, t_got1 = [?a], t_got2 = [?a, ?b]\<rparr>"
  let ?s11 = "\<lparr>t_in = [], t_pc = TeeDone, t_buf1 = [?b], t_buf2 = [], t_closed1 = True, t_closed2 = True, t_got1 = [?a], t_got2 = [?a, ?b]\<rparr>"
  let ?s12 = "\<lparr>t_in = [], t_pc = TeeDone, t_buf1 = [], t_buf2 = [], t_closed1 = True, t_closed2 = True, t_got1 = [?a, ?b], t_got2 = [?a, ?b]\<rparr>"
  have step0: "tee_step 1 ?s0 ?s1" using tee_step.recv [of ?s0 ?a "[?b]" 1] by simp
  have step1: "tee_step 1 ?s1 ?s2" using tee_step.send1 [of ?s1 ?a 1] by simp
  have step2: "tee_step 1 ?s2 ?s3" using tee_step.send2 [of ?s2 ?a 1] by simp
  have step3: "tee_step 1 ?s3 ?s4" using tee_step.recv [of ?s3 ?b "[]" 1] by simp
  have step4: "tee_step 1 ?s4 ?s5" using tee_step.take1 [of ?s4 ?a "[]" 1] by simp
  have step5: "tee_step 1 ?s5 ?s6" using tee_step.send1 [of ?s5 ?b 1] by simp
  have step6: "tee_step 1 ?s6 ?s7" using tee_step.take2 [of ?s6 ?a "[]" 1] by simp
  have step7: "tee_step 1 ?s7 ?s8" using tee_step.hand2 [of ?s7 ?b 1] by simp
  have step8: "tee_step 1 ?s8 ?s9" using tee_step.eof [of ?s8 1] by simp
  have step9: "tee_step 1 ?s9 ?s10" using tee_step.close2 [of ?s9 1] by simp
  have step10: "tee_step 1 ?s10 ?s11" using tee_step.close1 [of ?s10 1] by simp
  have step11: "tee_step 1 ?s11 ?s12" using tee_step.take1 [of ?s11 ?b "[]" 1] by simp
  have run: "(tee_step 1)\<^sup>*\<^sup>* ?s0 ?s12"
    using step0 step1 step2 step3 step4 step5 step6 step7 step8 step9 step10 step11
    by (meson rtranclp.rtrancl_into_rtrancl rtranclp.rtrancl_refl)
  have init: "tee [?a, ?b] 1 = Some ?s0" by (simp add: tee_def)
  have fin: "tee_finished ?s12" by (simp add: tee_finished_def)
  from tee_delivers [of 1 "[?a, ?b]"] init run fin
  have "t_got1 ?s12 = [?a, ?b] \<and> t_got2 ?s12 = [?a, ?b]" by auto
  with init run fin show ?thesis by blast
qed

section \<open>Properties of the worker pool\<close>

lemma holding_update:
  "i < length ws \<Longrightarrow> holding (ws[i := w]) + mset (held (ws ! i)) = holding ws + mset (held w)"
  unfolding holding_def
proof (induction ws arbitrary: i)
  case Nil
  then show ?case by simp
next
  case (Cons x xs)
  show ?case
  proof (cases i)
    case 0
    then show ?thesis by simp
  next
    case (Suc j)
    with Cons.prems have "j < length xs" by simp
    from Cons.IH [OF this] show ?thesis using Suc by (simp add: ac_simps)
  qed
qed

lemma returned_update:
  "i < length ws \<Longrightarrow>
     returned (ws[i := w]) + (if ws ! i = WDone then 1 else 0) =
     returned ws + (if w = WDone then 1 else 0)"
  unfolding returned_def
proof (induction ws arbitrary: i)
  case Nil
  then show ?case by simp
next
  case (Cons x xs)
  show ?case
  proof (cases i)
    case 0
    then show ?thesis by simp
  next
    case (Suc j)
    with Cons.prems have "j < length xs" by simp
    from Cons.IH [OF this] show ?thesis using Suc by (auto split: if_splits)
  qed
qed

lemma weight_update:
  "i < length ws \<Longrightarrow>
     sum_list (map worker_weight (ws[i := w])) + worker_weight (ws ! i) =
     sum_list (map worker_weight ws) + worker_weight w"
proof (induction ws arbitrary: i)
  case Nil
  then show ?case by simp
next
  case (Cons x xs)
  show ?case
  proof (cases i)
    case 0
    then show ?thesis by simp
  next
    case (Suc j)
    with Cons.prems have "j < length xs" by simp
    from Cons.IH [OF this] show ?thesis using Suc by simp
  qed
qed

lemma set_update_Done:
  "WDone \<in> set (ws[i := w]) \<Longrightarrow> w \<noteq> WDone \<Longrightarrow> WDone \<in> set ws"
  by (metis in_set_conv_nth length_list_update nth_list_update_eq nth_list_update_neq)

lemma list_all_Done_nth:
  "list_all (\<lambda>w. w = WDone) ws \<Longrightarrow> i < length ws \<Longrightarrow> ws ! i = WDone"
  by (simp add: list_all_length)

lemma holding_replicate: "holding (replicate n WRecv) = {#}"
  by (induction n) (simp_all add: holding_def)

lemma pool_inv_init:
  "processLogs input numWorkers = Some s0 \<Longrightarrow> pool_inv input numWorkers s0"
  by (auto simp: processLogs_def pool_inv_def holding_replicate split: if_splits)


lemma pool_inv_step:
  assumes "pool_step s s'" "pool_inv input numWorkers s"
  shows "pool_inv input numWorkers s'"
  using assms(1)
proof (cases rule: pool_step.cases)
  case cancel
  with assms(2) show ?thesis by (auto simp: pool_inv_def)
next
  case (take i v rest)
  from holding_update [OF take(2), of "WSelect v"] take(3)
  have h: "holding ((p_workers s)[i := WSelect v]) = holding (p_workers s) + {#v#}" by simp
  from returned_update [OF take(2), of "WSelect v"] take(3)
  have r: "returned ((p_workers s)[i := WSelect v]) = returned (p_workers s)" by simp
  have d: "WDone \<in> set ((p_workers s)[i := WSelect v]) \<Longrightarrow> WDone \<in> set (p_workers s)"
    by (erule set_update_Done) simp
  have a: "list_all (\<lambda>w. w = WDone) (p_workers s) \<Longrightarrow> False"
    using list_all_Done_nth [OF _ take(2)] take(3) by simp
  from assms(2) take(4) show ?thesis
    unfolding pool_inv_def take(1) using h r d a by (auto simp: ac_simps)
next
  case (input_closed i)
  from holding_update [OF input_closed(2), of WDone] input_closed(3)
  have h: "holding ((p_workers s)[i := WDone]) = holding (p_workers s)" by simp
  from returned_update [OF input_closed(2), of WDone] input_closed(3)
  have r: "returned ((p_workers s)[i := WDone]) = Suc (returned (p_workers s))" by simp
  have a: "list_all (\<lambda>w. w = WDone) (p_workers s) \<Longrightarrow> False"
    using list_all_Done_nth [OF _ input_closed(2)] input_closed(3) by simp
  from assms(2) input_closed(4) show ?thesis
    unfolding pool_inv_def input_closed(1) using h r a by auto
next
  case (observe i v)
  from holding_update [OF observe(2), of WDone] observe(3)
  have h: "holding ((p_workers s)[i := WDone]) + {#v#} = holding (p_workers s)" by simp
  from returned_update [OF observe(2), of WDone] observe(3)
  have r: "returned ((p_workers s)[i := WDone]) = Suc (returned (p_workers s))" by simp
  have a: "list_all (\<lambda>w. w = WDone) (p_workers s) \<Longrightarrow> False"
    using list_all_Done_nth [OF _ observe(2)] observe(3) by simp
  from assms(2) observe(4) show ?thesis
    unfolding pool_inv_def observe(1) using h [symmetric] r a by (auto simp: ac_simps)
next
  case (proceed i v)
  from holding_update [OF proceed(2), of "WSend v"] proceed(3)
  have h: "holding ((p_workers s)[i := WSend v]) = holding (p_workers s)" by simp
  from returned_update [OF proceed(2), of "WSend v"] proceed(3)
  have r: "returned ((p_workers s)[i := WSend v]) = returned (p_workers s)" by simp
  have d: "WDone \<in> set ((p_workers s)[i := WSend v]) \<Longrightarrow> WDone \<in> set (p_workers s)"
    by (erule set_update_Done) simp
  have a: "list_all (\<lambda>w. w = WDone) (p_workers s) \<Longrightarrow> False"
    using list_all_Done_nth [OF _ proceed(2)] proceed(3) by simp
  from assms(2) show ?thesis
    unfolding pool_inv_def proceed(1) using h r d a by auto
next
  case (deliver i v)
  from holding_update [OF deliver(2), of WRecv] deliver(3)
  have h: "holding ((p_workers s)[i := WRecv]) + {#v#} = holding (p_workers s)" by simp
  from returned_update [OF deliver(2), of WRecv] deliver(3)
  have r: "returned ((p_workers s)[i := WRecv]) = returned (p_workers s)" by simp
  have d: "WDone \<in> set ((p_workers s)[i := WRecv]) \<Longrightarrow> WDone \<in> set (p_workers s)"
    by (erule set_update_Done) simp
  have a: "list_all (\<lambda>w. w = WDone) (p_workers s) \<Longrightarrow> False"
    using list_all_Done_nth [OF _ deliver(2)] deliver(3) by simp
  from assms(2) show ?thesis
    unfolding pool_inv_def deliver(1) using h [symmetric] r d a by (auto simp: ac_simps)
next
  case close_out
  with assms(2) show ?thesis by (auto simp: pool_inv_def)
qed

lemma pool_inv_steps:
  "pool_step\<^sup>*\<^sup>* s s' \<Longrightarrow> pool_inv input numWorkers s \<Longrightarrow> pool_inv input numWorkers s'"
  by (induction rule: rtranclp_induct) (auto intro: pool_inv_step)

lemma pool_measure_step: "pool_step s s' \<Longrightarrow> pool_measure s' < pool_measure s"
proof (induction rule: pool_step.induct)
  case (cancel s)
  then show ?case by (simp add: pool_measure_def)
next
  case (take i s v rest)
  from weight_update [OF take(1), of "WSelect v"] take(2,3) show ?case
    by (simp add: pool_measure_def)
next
  case (input_closed i s)
  from weight_update [OF input_closed(1), of WDone] input_closed(2) show ?case
    by (simp add: pool_measure_def)
next
  case (observe i s v)
  from weight_update [OF observe(1), of WDone] observe(2) show ?case
    by (simp add: pool_measure_def)
next
  case (proceed i s v)
  from weight_update [OF proceed(1), of "WSend v"] proceed(2) show ?case
    by (simp add: pool_measure_def)
next
  case (deliver i s v)
  from weight_update [OF deliver(1), of WRecv] deliver(2) show ?case
    by (simp add: pool_measure_def)
next
  case (close_out s)
  then show ?case by (simp add: pool_measure_def)
qed

lemma pool_progress:
  assumes "\<not> p_closed s"
  shows "\<exists>s'. pool_step s s' \<and> p_cancelled s' = p_cancelled s"
proof (cases "list_all (\<lambda>w. w = WDone) (p_workers s)")
  case True
  from pool_step.close_out [OF True assms] show ?thesis by force
next
  case False
  then obtain i where i: "i < length (p_workers s)" and w: "p_workers s ! i \<noteq> WDone"
    by (auto simp: list_all_length)
  show ?thesis
  proof (cases "p_workers s ! i")
    case WRecv
    show ?thesis
    proof (cases "p_in s")
      case Nil
      from pool_step.input_closed [OF i WRecv Nil] show ?thesis by force
    next
      case (Cons v rest)
      from pool_step.take [OF i WRecv Cons] show ?thesis by force
    qed
  next
    case (WSelect v)
    show ?thesis
    proof (cases "p_cancelled s")
      case True
      from pool_step.observe [OF i WSelect True] show ?thesis by force
    next
      case False
      from pool_step.proceed [OF i WSelect False] show ?thesis by force
    qed
  next
    case (WSend v)
    from pool_step.deliver [OF i WSend] show ?thesis by force
  next
    case WDone
    with w show ?thesis by simp
  qed
qed

lemma pool_completes:
  "\<exists>s'. pool_step\<^sup>*\<^sup>* s s' \<and> p_closed s' \<and> p_cancelled s' = p_cancelled s"
proof (induction "pool_measure s" arbitrary: s rule: less_induct)
  case less
  show ?case
  proof (cases "p_closed s")
    case True
    then show ?thesis by blast
  next
    case False
    from pool_progress [OF False] obtain s1
      where s1: "pool_step s s1" and c: "p_cancelled s1 = p_cancelled s" by blast
    from less.hyps [OF pool_measure_step [OF s1]] obtain s'
      where "pool_step\<^sup>*\<^sup>* s1 s'" "p_closed s'" "p_cancelled s' = p_cancelled s1" by blast
    with s1 c show ?thesis by (metis converse_rtranclp_into_rtranclp)
  qed
qed


lemma holding_all_Done: "list_all (\<lambda>w. w = WDone) ws \<Longrightarrow> holding ws = {#}"
  by (induction ws) (simp_all add: holding_def)

lemma returned_le: "returned ws \<le> length ws"
  by (simp add: returned_def)

lemma pool_step_stable:
  assumes "pool_step s s'"
  shows "(\<forall>i < length (p_workers s). p_workers s ! i = WDone \<longrightarrow> p_workers s' ! i = WDone) \<and>
     (p_cancelled s \<longrightarrow> p_cancelled s' \<and>
        (\<forall>i < length (p_workers s). \<forall>v. p_workers s ! i = WSelect v \<longrightarrow>
           p_workers s' ! i = WSelect v \<or> p_workers s' ! i = WDone)) \<and>
     (list_all (\<lambda>w. w = WDone) (p_workers s) \<longrightarrow> p_in s' = p_in s \<and> p_out s' = p_out s)"
  using assms
proof (cases rule: pool_step.cases)
  case cancel
  then show ?thesis by simp
next
  case (take i v rest)
  then show ?thesis by (auto simp: nth_list_update list_all_length)
next
  case (input_closed i)
  then show ?thesis by (auto simp: nth_list_update list_all_length)
next
  case (observe i v)
  then show ?thesis by (auto simp: nth_list_update list_all_length)
next
  case (proceed i v)
  then show ?thesis by (auto simp: nth_list_update list_all_length)
next
  case (deliver i v)
  then show ?thesis by (auto simp: nth_list_update list_all_length)
next
  case close_out
  then show ?thesis by simp
qed

lemma pool_inv_closed:
  assumes "pool_inv input numWorkers s" "1 \<le> numWorkers" "p_closed s"
  shows "list_all (\<lambda>w. w = WDone) (p_workers s) \<and>
     (\<not> p_cancelled s \<longrightarrow> p_in s = [] \<and> mset (p_out s) = mset input)"
proof -
  from assms(1,3) have all: "list_all (\<lambda>w. w = WDone) (p_workers s)"
    by (simp add: pool_inv_def)
  from assms(1,2) have "p_workers s \<noteq> []" by (auto simp: pool_inv_def)
  with all have d: "WDone \<in> set (p_workers s)"
    by (cases "p_workers s") auto
  have "p_in s = [] \<and> mset (p_out s) = mset input" if "\<not> p_cancelled s"
    using assms(1) that d holding_all_Done [OF all] by (auto simp: pool_inv_def)
  with all show ?thesis by blast
qed

text \<open>
  Claim C4. For every worker count of at least 1 and every finite input, the pool
  starts, and in every state of every run: each record of the input is delivered, held
  by a worker, dropped, or still in the input; while the context is live nothing is
  dropped; when \<open>out\<close> is closed and the context was never cancelled, the records
  delivered are the input as a multiset; \<open>out\<close> is closed only when all workers have
  returned, which without cancellation means the input is exhausted. On cancellation a
  worker that has returned stays returned, a worker at the \<open>select\<close> can only return
  (it forwards nothing more), at most one record per worker is dropped, and once all
  workers have returned nothing more is taken from the input: what is left there stays.
  Every run can be continued until \<open>out\<close> is closed, without cancelling.
\<close>

theorem processLogs_forwards:
  assumes "1 \<le> numWorkers"
  shows "\<exists>s0. processLogs input numWorkers = Some s0 \<and>
    (\<forall>s. pool_step\<^sup>*\<^sup>* s0 s \<longrightarrow>
       int (length (p_workers s)) = numWorkers \<and>
       mset (p_out s) + holding (p_workers s) + mset (p_dropped s) + mset (p_in s) = mset input \<and>
       (\<not> p_cancelled s \<longrightarrow> p_dropped s = []) \<and>
       (p_closed s \<and> \<not> p_cancelled s \<longrightarrow> mset (p_out s) = mset input) \<and>
       (p_closed s \<longrightarrow> list_all (\<lambda>w. w = WDone) (p_workers s) \<and>
          (\<not> p_cancelled s \<longrightarrow> p_in s = [])) \<and>
       int (length (p_dropped s)) \<le> numWorkers \<and>
       (\<forall>s'. pool_step s s' \<longrightarrow>
          (\<forall>i < length (p_workers s). p_workers s ! i = WDone \<longrightarrow> p_workers s' ! i = WDone) \<and>
          (p_cancelled s \<longrightarrow> p_cancelled s' \<and>
             (\<forall>i < length (p_workers s). \<forall>v. p_workers s ! i = WSelect v \<longrightarrow>
                p_workers s' ! i = WSelect v \<or> p_workers s' ! i = WDone)) \<and>
          (list_all (\<lambda>w. w = WDone) (p_workers s) \<longrightarrow>
             p_in s' = p_in s \<and> p_out s' = p_out s)) \<and>
       (\<exists>s'. pool_step\<^sup>*\<^sup>* s s' \<and> p_closed s' \<and> p_cancelled s' = p_cancelled s))"
proof -
  from assms obtain s0 where s0: "processLogs input numWorkers = Some s0"
    by (auto simp: processLogs_def)
  have "int (length (p_workers s)) = numWorkers \<and>
       mset (p_out s) + holding (p_workers s) + mset (p_dropped s) + mset (p_in s) = mset input \<and>
       (\<not> p_cancelled s \<longrightarrow> p_dropped s = []) \<and>
       (p_closed s \<and> \<not> p_cancelled s \<longrightarrow> mset (p_out s) = mset input) \<and>
       (p_closed s \<longrightarrow> list_all (\<lambda>w. w = WDone) (p_workers s) \<and>
          (\<not> p_cancelled s \<longrightarrow> p_in s = [])) \<and>
       int (length (p_dropped s)) \<le> numWorkers \<and>
       (\<forall>s'. pool_step s s' \<longrightarrow>
          (\<forall>i < length (p_workers s). p_workers s ! i = WDone \<longrightarrow> p_workers s' ! i = WDone) \<and>
          (p_cancelled s \<longrightarrow> p_cancelled s' \<and>
             (\<forall>i < length (p_workers s). \<forall>v. p_workers s ! i = WSelect v \<longrightarrow>
                p_workers s' ! i = WSelect v \<or> p_workers s' ! i = WDone)) \<and>
          (list_all (\<lambda>w. w = WDone) (p_workers s) \<longrightarrow>
             p_in s' = p_in s \<and> p_out s' = p_out s)) \<and>
       (\<exists>s'. pool_step\<^sup>*\<^sup>* s s' \<and> p_closed s' \<and> p_cancelled s' = p_cancelled s)"
    if run: "pool_step\<^sup>*\<^sup>* s0 s" for s
  proof -
    from pool_inv_steps [OF run pool_inv_init [OF s0]] have inv: "pool_inv input numWorkers s" .
    have a: "int (length (p_workers s)) = numWorkers"
      and b: "mset (p_out s) + holding (p_workers s) + mset (p_dropped s) + mset (p_in s) =
        mset input"
      and c: "\<not> p_cancelled s \<longrightarrow> p_dropped s = []"
      using inv by (simp_all add: pool_inv_def)
    have d: "int (length (p_dropped s)) \<le> numWorkers"
      using inv returned_le [of "p_workers s"] by (simp add: pool_inv_def)
    have e: "p_closed s \<longrightarrow> list_all (\<lambda>w. w = WDone) (p_workers s) \<and>
        (\<not> p_cancelled s \<longrightarrow> p_in s = [] \<and> mset (p_out s) = mset input)"
      using pool_inv_closed [OF inv assms] by blast
    have f: "\<forall>s'. pool_step s s' \<longrightarrow>
          (\<forall>i < length (p_workers s). p_workers s ! i = WDone \<longrightarrow> p_workers s' ! i = WDone) \<and>
          (p_cancelled s \<longrightarrow> p_cancelled s' \<and>
             (\<forall>i < length (p_workers s). \<forall>v. p_workers s ! i = WSelect v \<longrightarrow>
                p_workers s' ! i = WSelect v \<or> p_workers s' ! i = WDone)) \<and>
          (list_all (\<lambda>w. w = WDone) (p_workers s) \<longrightarrow>
             p_in s' = p_in s \<and> p_out s' = p_out s)"
      using pool_step_stable by blast
    from a b c d e f pool_completes [of s] show ?thesis by blast
  qed
  with s0 show ?thesis by blast
qed

theorem processLogs_forwards_witness:
  "processLogs [\<lparr>Timestamp = ''2024-01-15 10:30:00'', IP = ''10.0.0.1'', Method = ''GET'', URL = ''/a'', StatusCode = 200, ResponseTime = 12\<rparr>,
      \<lparr>Timestamp = ''2024-01-15 10:30:01'', IP = ''10.0.0.2'', Method = ''POST'', URL = ''/b'', StatusCode = 500, ResponseTime = 40\<rparr>] 2 =
     Some \<lparr>p_in = [\<lparr>Timestamp = ''2024-01-15 10:30:00'', IP = ''10.0.0.1'', Method = ''GET'', URL = ''/a'', StatusCode = 200, ResponseTime = 12\<rparr>, \<lparr>Timestamp = ''2024-01-15 10:30:01'', IP = ''10.0.0.2'', Method = ''POST'', URL = ''/b'', StatusCode = 500, ResponseTime = 40\<rparr>], p_cancelled = False, p_workers = [WRecv, WRecv], p_out = [], p_closed = False, p_dropped = []\<rparr> \<and>
   pool_step\<^sup>*\<^sup>*
     \<lparr>p_in = [\<lparr>Timestamp = ''2024-01-15 10:30:00'', IP = ''10.0.0.1'', Method = ''GET'', URL = ''/a'', StatusCode = 200, ResponseTime = 12\<rparr>, \<lparr>Timestamp = ''2024-01-15 10:30:01'', IP = ''10.0.0.2'', Method = ''POST'', URL = ''/b'', StatusCode = 500, ResponseTime = 40\<rparr>], p_cancelled = False, p_workers = [WRecv, WRecv], p_out = [], p_closed = False, p_dropped = []\<rparr>
     \<lparr>p_in = [], p_cancelled = False, p_workers = [WDone, WDone], p_out = [\<lparr>Timestamp = ''2024-01-15 10:30:01'', IP = ''10.0.0.2'', Method = ''POST'', URL = ''/b'', StatusCode = 500, ResponseTime = 40\<rparr>, \<lparr>Timestamp = ''2024-01-15 10:30:00'', IP = ''10.0.0.1'', Method = ''GET'', URL = ''/a'', StatusCode = 200, ResponseTime = 12\<rparr>], p_closed = True, p_dropped = []\<rparr> \<and>
   mset (p_out \<lparr>p_in = [], p_cancelled = False, p_workers = [WDone, WDone], p_out = [\<lparr>Timestamp = ''2024-01-15 10:30:01'', IP = ''10.0.0.2'', Method = ''POST'', URL = ''/b'', StatusCode = 500, ResponseTime = 40\<rparr>, \<lparr>Timestamp = ''2024-01-15 10:30:00'', IP = ''10.0.0.1'', Method = ''GET'', URL = ''/a'', StatusCode = 200, ResponseTime = 12\<rparr>], p_closed = True, p_dropped = []\<rparr>) =
     mset [\<lparr>Timestamp = ''2024-01-15 10:30:00'', IP = ''10.0.0.1'', Method = ''GET'', URL = ''/a'', StatusCode = 200, ResponseTime = 12\<rparr>,
           \<lparr>Timestamp = ''2024-01-15 10:30:01'', IP = ''10.0.0.2'', Method = ''POST'', URL = ''/b'', StatusCode = 500, ResponseTime = 40\<rparr>] \<and>
   p_in \<lparr>p_in = [], p_cancelled = False, p_workers = [WDone, WDone], p_out = [\<lparr>Timestamp = ''2024-01-15 10:30:01'', IP = ''10.0.0.2'', Method = ''POST'', URL = ''/b'', StatusCode = 500, ResponseTime = 40\<rparr>, \<lparr>Timestamp = ''2024-01-15 10:30:00'', IP = ''10.0.0.1'', Method = ''GET'', URL = ''/a'', StatusCode = 200, ResponseTime = 12\<rparr>], p_closed = True, p_dropped = []\<rparr> = [] \<and>
   pool_step\<^sup>*\<^sup>*
     \<lparr>p_in = [\<lparr>Timestamp = ''2024-01-15 10:30:00'', IP = ''10.0.0.1'', Method = ''GET'', URL = ''/a'', StatusCode = 200, ResponseTime = 12\<rparr>, \<lparr>Timestamp = ''2024-01-15 10:30:01'', IP = ''10.0.0.2'', Method = ''POST'', URL = ''/b'', StatusCode = 500, ResponseTime = 40\<rparr>], p_cancelled = False, p_workers = [WRecv, WRecv], p_out = [], p_closed = False, p_dropped = []\<rparr>
     \<lparr>p_in = [\<lparr>Timestamp = ''2024-01-15 10:30:01'', IP = ''10.0.0.2'', Method = ''POST'', URL = ''/b'', StatusCode = 500, ResponseTime = 40\<rparr>], p_cancelled = True, p_workers = [WDone, WRecv], p_out = [], p_closed = False, p_dropped = [\<lparr>Timestamp = ''2024-01-15 10:30:00'', IP = ''10.0.0.1'', Method = ''GET'', URL = ''/a'', StatusCode = 200, ResponseTime = 12\<rparr>]\<rparr> \<and>
   pool_step
     \<lparr>p_in = [\<lparr>Timestamp = ''2024-01-15 10:30:01'', IP = ''10.0.0.2'', Method = ''POST'', URL = ''/b'', StatusCode = 500, ResponseTime = 40\<rparr>], p_cancelled = True, p_workers = [WDone, WRecv], p_out = [], p_closed = False, p_dropped = [\<lparr>Timestamp = ''2024-01-15 10:30:00'', IP = ''10.0.0.1'', Method = ''GET'', URL = ''/a'', StatusCode = 200, ResponseTime = 12\<rparr>]\<rparr>
     \<lparr>p_in = [], p_cancelled = True, p_workers = [WDone, WSelect \<lparr>Timestamp = ''2024-01-15 10:30:01'', IP = ''10.0.0.2'', Method = ''POST'', URL = ''/b'', StatusCode = 500, ResponseTime = 40\<rparr>], p_out = [], p_closed = False, p_dropped = [\<lparr>Timestamp = ''2024-01-15 10:30:00'', IP = ''10.0.0.1'', Method = ''GET'', URL = ''/a'', StatusCode = 200, ResponseTime = 12\<rparr>]\<rparr> \<and>
   int (length (p_dropped \<lparr>p_in = [\<lparr>Timestamp = ''2024-01-15 10:30:01'', IP = ''10.0.0.2'', Method = ''POST'', URL = ''/b'', StatusCode = 500, ResponseTime = 40\<rparr>], p_cancelled = True, p_workers = [WDone, WRecv], p_out = [], p_closed = False, p_dropped = [\<lparr>Timestamp = ''2024-01-15 10:30:00'', IP = ''10.0.0.1'', Method = ''GET'', URL = ''/a'', StatusCode = 200, ResponseTime = 12\<rparr>]\<rparr>)) \<le> 2 \<and>
   p_workers \<lparr>p_in = [], p_cancelled = True, p_workers = [WDone, WSelect \<lparr>Timestamp = ''2024-01-15 10:30:01'', IP = ''10.0.0.2'', Method = ''POST'', URL = ''/b'', StatusCode = 500, ResponseTime = 40\<rparr>], p_out = [], p_closed = False, p_dropped = [\<lparr>Timestamp = ''2024-01-15 10:30:00'', IP = ''10.0.0.1'', Method = ''GET'', URL = ''/a'', StatusCode = 200, ResponseTime = 12\<rparr>]\<rparr> ! 0 = WDone"
proof -
  let ?a = "\<lparr>Timestamp = ''2024-01-15 10:30:00'', IP = ''10.0.0.1'', Method = ''GET'', URL = ''/a'', StatusCode = 200, ResponseTime = 12\<rparr>"
  let ?b = "\<lparr>Timestamp = ''2024-01-15 10:30:01'', IP = ''10.0.0.2'', Method = ''POST'', URL = ''/b'', StatusCode = 500, ResponseTime = 40\<rparr>"
  let ?s0 = "\<lparr>p_in = [?a, ?b], p_cancelled = False, p_workers = [WRecv, WRecv], p_out = [], p_closed = False, p_dropped = []\<rparr>"
  let ?s1 = "\<lparr>p_in = [?b], p_cancelled = False, p_workers = [WSelect ?a, WRecv], p_out = [], p_closed = False, p_dropped = []\<rparr>"
  let ?s2 = "\<lparr>p_in = [], p_cancelled = False, p_workers = [WSelect ?a, WSelect ?b], p_out = [], p_closed = False, p_dropped = []\<rparr>"
  let ?s3 = "\<lparr>p_in = [], p_cancelled = False, p_workers = [WSelect ?a, WSend ?b], p_out = [], p_closed = False, p_dropped = []\<rparr>"
  let ?s4 = "\<lparr>p_in = [], p_cancelled = False, p_workers = [WSelect ?a, WRecv], p_out = [?b], p_closed = False, p_dropped = []\<rparr>"
  let ?s5 = "\<lparr>p_in = [], p_cancelled = False, p_workers = [WSend ?a, WRecv], p_out = [?b], p_closed = False, p_dropped = []\<rparr>"
  let ?s6 = "\<lparr>p_in = [], p_cancelled = False, p_workers = [WRecv, WRecv], p_out = [?b, ?a], p_closed = False, p_dropped = []\<rparr>"
  let ?s7 = "\<lparr>p_in = [], p_cancelled = False, p_workers = [WDone, WRecv], p_out = [?b, ?a], p_closed = False, p_dropped = []\<rparr>"
  let ?s8 = "\<lparr>p_in = [], p_cancelled = False, p_workers = [WDone, WDone], p_out = [?b, ?a], p_closed = False, p_dropped = []\<rparr>"
  let ?s9 = "\<lparr>p_in = [], p_cancelled = False, p_workers = [WDone, WDone], p_out = [?b, ?a], p_closed = True, p_dropped = []\<rparr>"
  let ?c1 = "\<lparr>p_in = [?b], p_cancelled = True, p_workers = [WSelect ?a, WRecv], p_out = [], p_closed = False, p_dropped = []\<rparr>"
  let ?c2 = "\<lparr>p_in = [?b], p_cancelled = True, p_workers = [WDone, WRecv], p_out = [], p_closed = False, p_dropped = [?a]\<rparr>"
  let ?c3 = "\<lparr>p_in = [], p_cancelled = True, p_workers = [WDone, WSelect ?b], p_out = [], p_closed = False, p_dropped = [?a]\<rparr>"
  have a0: "pool_step ?s0 ?s1" using pool_step.take [of 0 ?s0 ?a "[?b]"] by simp
  have a1: "pool_step ?s1 ?s2" using pool_step.take [of 1 ?s1 ?b "[]"] by simp
  have a2: "pool_step ?s2 ?s3" using pool_step.proceed [of 1 ?s2 ?b] by simp
  have a3: "pool_step ?s3 ?s4" using pool_step.deliver [of 1 ?s3 ?b] by simp
  have a4: "pool_step ?s4 ?s5" using pool_step.proceed [of 0 ?s4 ?a] by simp
  have a5: "pool_step ?s5 ?s6" using pool_step.deliver [of 0 ?s5 ?a] by simp
  have a6: "pool_step ?s6 ?s7" using pool_step.input_closed [of 0 ?s6] by simp
  have a7: "pool_step ?s7 ?s8" using pool_step.input_closed [of 1 ?s7] by simp
  have a8: "pool_step ?s8 ?s9" using pool_step.close_out [of ?s8] by simp
  have b0: "pool_step ?s1 ?c1" using pool_step.cancel [of ?s1] by simp
  have b1: "pool_step ?c1 ?c2" using pool_step.observe [of 0 ?c1 ?a] by simp
  have b2: "pool_step ?c2 ?c3" using pool_step.take [of 1 ?c2 ?b "[]"] by simp
  have runA: "pool_step\<^sup>*\<^sup>* ?s0 ?s9"
    using a0 a1 a2 a3 a4 a5 a6 a7 a8
    by (meson rtranclp.rtrancl_into_rtrancl rtranclp.rtrancl_refl)
  have runB: "pool_step\<^sup>*\<^sup>* ?s0 ?c2"
    using a0 b0 b1 by (meson rtranclp.rtrancl_into_rtrancl rtranclp.rtrancl_refl)
  have init: "processLogs [?a, ?b] 2 = Some ?s0" by (simp add: processLogs_def numeral_2_eq_2)
  have n: "(1 :: int) \<le> 2" by simp
  from processLogs_forwards [OF n, of "[?a, ?b]"] obtain t0
    where t0: "processLogs [?a, ?b] 2 = Some t0"
      and reach: "\<forall>s. pool_step\<^sup>*\<^sup>* t0 s \<longrightarrow>
       int (length (p_workers s)) = 2 \<and>
       mset (p_out s) + holding (p_workers s) + mset (p_dropped s) + mset (p_in s) =
         mset [?a, ?b] \<and>
       (\<not> p_cancelled s \<longrightarrow> p_dropped s = []) \<and>
       (p_closed s \<and> \<not> p_cancelled s \<longrightarrow> mset (p_out s) = mset [?a, ?b]) \<and>
       (p_closed s \<longrightarrow> list_all (\<lambda>w. w = WDone) (p_workers s) \<and>
          (\<not> p_cancelled s \<longrightarrow> p_in s = [])) \<and>
       int (length (p_dropped s)) \<le> 2 \<and>
       (\<forall>s'. pool_step s s' \<longrightarrow>
          (\<forall>i < length (p_workers s). p_workers s ! i = WDone \<longrightarrow> p_workers s' ! i = WDone) \<and>
          (p_cancelled s \<longrightarrow> p_cancelled s' \<and>
             (\<forall>i < length (p_workers s). \<forall>v. p_workers s ! i = WSelect v \<longrightarrow>
                p_workers s' ! i = WSelect v \<or> p_workers s' ! i = WDone)) \<and>
          (list_all (\<lambda>w. w = WDone) (p_workers s) \<longrightarrow>
             p_in s' = p_in s \<and> p_out s' = p_out s)) \<and>
       (\<exists>s'. pool_step\<^sup>*\<^sup>* s s' \<and> p_closed s' \<and> p_cancelled s' = p_cancelled s)"
    by (elim exE conjE)
  from t0 init have t0': "t0 = ?s0" by simp
  have all: "(p_closed s \<and> \<not> p_cancelled s \<longrightarrow> mset (p_out s) = mset [?a, ?b]) \<and>
       (p_closed s \<longrightarrow> (\<not> p_cancelled s \<longrightarrow> p_in s = [])) \<and>
       int (length (p_dropped s)) \<le> 2 \<and>
       (\<forall>s'. pool_step s s' \<longrightarrow>
          (\<forall>i < length (p_workers s). p_workers s ! i = WDone \<longrightarrow> p_workers s' ! i = WDone))"
    if "pool_step\<^sup>*\<^sup>* ?s0 s" for s
    using reach [rule_format, of s] that unfolding t0' by blast
  from all [OF runA] have "mset (p_out ?s9) = mset [?a, ?b]" "p_in ?s9 = []" by simp_all
  moreover from all [OF runB] b2 have "int (length (p_dropped ?c2)) \<le> 2" "p_workers ?c3 ! 0 = WDone"
    by (simp, fastforce)
  ultimately show ?thesis using init runA runB b2 by blast
qed

section \<open>Properties of the source reader and of the pipeline\<close>


lemma scanLoop_last:
  "newline \<notin> set l \<Longrightarrow> length line + length l < maxScanTokenSize \<Longrightarrow>
     scanLoop l line = ((if line @ l = [] then [] else [dropCR (line @ l)]), False)"
  by (induction l arbitrary: line) auto





















section \<open>Failure to open or to stat the input file\<close>

text \<open>
  When the file cannot be opened, \<open>readLogs\<close> returns the error, and \<open>main\<close> ends the
  process through \<open>log.Fatalf\<close>; no record is produced.
\<close>

lemma open_failure_fatal:
  assumes "fs path = Inl err"
  shows "readLogs fs path = ReturnedError err \<and>
     main_run fs [prog, path]
       \<lparr>exit_status = 1, printed = [], logged = [ReadLogsFatal err], records = [],
        results = None\<rparr> \<and>
     (\<forall>out. main_run fs [prog, path] out \<longrightarrow>
        out = \<lparr>exit_status = 1, printed = [], logged = [ReadLogsFatal err], records = [],
               results = None\<rparr>)"
proof -
  from assms have rl: "readLogs fs path = ReturnedError err" by (simp add: readLogs_def)
  have run: "main_run fs [prog, path]
       \<lparr>exit_status = 1, printed = [], logged = [ReadLogsFatal err], records = [],
        results = None\<rparr>"
    using main_run.open_failed [of "[prog, path]" fs err] rl by simp
  have "out = \<lparr>exit_status = 1, printed = [], logged = [ReadLogsFatal err], records = [],
               results = None\<rparr>" if "main_run fs [prog, path] out" for out
    using that rl by (cases rule: main_run.cases) simp_all
  with rl run show ?thesis by blast
qed

text \<open>
  When the file opens and \<open>Stat\<close> fails, \<open>readLogs\<close> prints the error and then calls
  \<open>Name()\<close> on the nil \<open>FileInfo\<close>: the process ends in a runtime panic, and the
  caller of \<open>readLogs\<close> receives no error.
\<close>

lemma stat_failure_panics:
  assumes "fs path = Inr f" "file_stat f = Inl err"
  shows "readLogs fs path = NilPanic [StatFailed err] \<and>
     main_run fs [prog, path]
       \<lparr>exit_status = 2, printed = [StatFailed err], logged = [], records = [],
        results = None\<rparr> \<and>
     (\<forall>out. main_run fs [prog, path] out \<longrightarrow>
        out = \<lparr>exit_status = 2, printed = [StatFailed err], logged = [], records = [],
               results = None\<rparr>)"
proof -
  from assms have rl: "readLogs fs path = NilPanic [StatFailed err]" by (simp add: readLogs_def)
  have run: "main_run fs [prog, path]
       \<lparr>exit_status = 2, printed = [StatFailed err], logged = [], records = [],
        results = None\<rparr>"
    using main_run.stat_failed [of "[prog, path]" fs "[StatFailed err]"] rl by simp
  have "out = \<lparr>exit_status = 2, printed = [StatFailed err], logged = [], records = [],
               results = None\<rparr>" if "main_run fs [prog, path] out" for out
    using that rl by (cases rule: main_run.cases) simp_all
  with rl run show ?thesis by blast
qed

text \<open>
  Claim C9 says that a file that cannot be stat'd is reported to the caller of
  \<open>readLogs\<close> as an error. The program does not do that: on a file whose \<open>Stat\<close>
  fails, \<open>readLogs\<close> returns no error but panics, and the run ends with the status of
  a panic, having printed the \<open>Stat\<close> error and produced no record.
\<close>

theorem stat_failure_not_returned:
  "readLogs (\<lambda>p. Inr \<lparr>file_stat = Inl (OsError ''stale file handle''),
       file_bytes = join_lines [''timestamp,ip,method,url,status_code,response_time_ms'',
                                ''2024-01-15 10:30:00,10.0.0.1,GET,/a,200,12''],
       file_read_err = None\<rparr>) ''access.log'' =
     NilPanic [StatFailed (OsError ''stale file handle'')] \<and>
   (\<nexists>err. readLogs (\<lambda>p. Inr \<lparr>file_stat = Inl (OsError ''stale file handle''),
       file_bytes = join_lines [''timestamp,ip,method,url,status_code,response_time_ms'',
                                ''2024-01-15 10:30:00,10.0.0.1,GET,/a,200,12''],
       file_read_err = None\<rparr>) ''access.log'' = ReturnedError err) \<and>
   main_run (\<lambda>p. Inr \<lparr>file_stat = Inl (OsError ''stale file handle''),
       file_bytes = join_lines [''timestamp,ip,method,url,status_code,response_time_ms'',
                                ''2024-01-15 10:30:00,10.0.0.1,GET,/a,200,12''],
       file_read_err = None\<rparr>) [''log-processor'', ''access.log'']
     \<lparr>exit_status = 2, printed = [StatFailed (OsError ''stale file handle'')], logged = [],
      records = [], results = None\<rparr>"
proof -
  let ?f = "\<lparr>file_stat = Inl (OsError ''stale file handle''),
       file_bytes = join_lines [''timestamp,ip,method,url,status_code,response_time_ms'',
                                ''2024-01-15 10:30:00,10.0.0.1,GET,/a,200,12''],
       file_read_err = None\<rparr>"
  let ?fs = "\<lambda>p :: string. (Inr ?f :: os_error + logfile)"
  have a: "?fs ''access.log'' = Inr ?f" by simp
  have b: "file_stat ?f = Inl (OsError ''stale file handle'')" by simp
  note r = stat_failure_panics [where fs = ?fs and path = "''access.log''" and f = ?f
      and err = "OsError ''stale file handle''" and prog = "''log-processor''", OF a b]
  from r [THEN conjunct1]
  have "\<nexists>err. readLogs ?fs ''access.log'' = ReturnedError err" by simp
  with r [THEN conjunct1] r [THEN conjunct2, THEN conjunct1] show ?thesis by (intro conjI)
qed

end
